theory Spec2Isabelle
  imports Complex_Main "HOL-Library.Word"
begin

section \<open>JavaScript values\<close>

text \<open>
  A JavaScript string is a sequence of 16-bit code units; \<open>length\<close> counts code units,
  as \<^verbatim>\<open>String.prototype.length\<close> does. \<open>js\<close> writes an ASCII literal as such a string.
\<close>

type_synonym code_unit = "16 word"
type_synonym js_string = "code_unit list"

definition js :: "string \<Rightarrow> js_string" where
  "js s = map (\<lambda>c. of_nat (of_char c)) s"

text \<open>
  A thrown value is either an object carrying a \<^verbatim>\<open>message\<close> (an \<^verbatim>\<open>Error\<close>) or
  anything else. \<^verbatim>\<open>getErrorMessage\<close> (utils/error.ts) reads the message and cuts it at
  500 code units.
\<close>

datatype exn = Error js_string | NonError

definition getErrorMessage :: "exn \<Rightarrow> js_string" where
  "getErrorMessage error =
     (let message = (case error of Error m \<Rightarrow> m
                                 | NonError \<Rightarrow> js ''An unknown error occurred'')
      in if length message > 500 then take 500 message @ js ''...'' else message)"

text \<open>\<^verbatim>\<open>x || null\<close> on an optional string: \<^verbatim>\<open>undefined\<close> and the empty string are falsy.\<close>

definition orNull :: "js_string option \<Rightarrow> js_string option" where
  "orNull x = (case x of None \<Rightarrow> None | Some m \<Rightarrow> if m = [] then None else Some m)"

section \<open>The contents table and its repository\<close>

text \<open>
  The rows of \<^verbatim>\<open>contents\<close> (lib/db/schema.ts). The columns \<^verbatim>\<open>file_url\<close> and
  \<^verbatim>\<open>metadata\<close> are not represented: no operation below reads them. Nullable columns
  are options, timestamps are readings of a clock, and \<^verbatim>\<open>processing_attempts\<close> is
  an integer (the 32-bit range of the column is taken never to be reached).
\<close>

datatype content_type = Image | Webpage | Youtube | Document
datatype content_status = Pending | Processing | Completed | Failed

record content =
  id' :: js_string
  type' :: content_type
  url :: "js_string option"
  title :: js_string
  description :: js_string
  contentPreview :: "js_string option"
  imageUrl :: "js_string option"
  status :: content_status
  errorMessage :: "js_string option"
  processingAttempts :: int
  createdAt :: nat
  updatedAt :: nat
  completedAt :: "nat option"

text \<open>\<^verbatim>\<open>NewContent\<close>: the insert type. Columns with a default or nullable may be left out.\<close>

record new_content =
  new_id :: js_string
  new_type :: content_type
  new_url :: "js_string option"
  new_title :: js_string
  new_description :: js_string
  new_contentPreview :: "js_string option"
  new_imageUrl :: "js_string option"
  new_status :: "content_status option"
  new_errorMessage :: "js_string option"
  new_processingAttempts :: "int option"
  new_createdAt :: "nat option"
  new_updatedAt :: "nat option"
  new_completedAt :: "nat option"

text \<open>
  \<^verbatim>\<open>Partial<Omit<NewContent, 'id'>>\<close>: the argument of \<^verbatim>\<open>update\<close>. \<open>None\<close> is a key
  that is absent; for a nullable column \<open>Some None\<close> writes \<^verbatim>\<open>null\<close>. A given
  \<^verbatim>\<open>updatedAt\<close> is always overwritten by \<^verbatim>\<open>update\<close>, so it has no field here.
\<close>

record content_patch =
  set_type :: "content_type option"
  set_url :: "js_string option option"
  set_title :: "js_string option"
  set_description :: "js_string option"
  set_contentPreview :: "js_string option option"
  set_imageUrl :: "js_string option option"
  set_status :: "content_status option"
  set_errorMessage :: "js_string option option"
  set_processingAttempts :: "int option"
  set_createdAt :: "nat option"
  set_completedAt :: "nat option option"

text \<open>The rows of \<^verbatim>\<open>content_chunks\<close>; an embedding is a vector of numbers.\<close>

record content_chunk =
  row_id :: js_string
  row_contentId :: js_string
  row_content :: js_string
  row_embedding :: "real list option"
  row_chunkIndex :: int
  row_startOffset :: "int option"
  row_endOffset :: "int option"
  row_section :: "js_string option"

text \<open>
  The database: the two tables, the clock that \<^verbatim>\<open>new Date()\<close> and \<^verbatim>\<open>now()\<close> read,
  and the faults the connection will meet. Every repository call takes the next entry
  of \<open>faults\<close>: \<open>Some e\<close> makes the call throw \<open>e\<close> without touching the tables, \<open>None\<close>
  (or an exhausted list) lets the statement run.
\<close>

record db =
  contents :: "js_string \<rightharpoonup> content"
  contentChunks :: "content_chunk list"
  faults :: "exn option list"
  clock :: nat

definition dbCall :: "db \<Rightarrow> exn option \<times> db" where
  "dbCall d = (case faults d of [] \<Rightarrow> (None, d) | f # fs \<Rightarrow> (f, d\<lparr>faults := fs\<rparr>))"

definition duplicateKey :: exn where
  "duplicateKey = Error (js ''duplicate key value violates unique constraint'')"

definition insertRow :: "new_content \<Rightarrow> nat \<Rightarrow> content" where
  "insertRow data now =
     \<lparr> id' = new_id data, type' = new_type data, url = new_url data,
       title = new_title data, description = new_description data,
       contentPreview = new_contentPreview data, imageUrl = new_imageUrl data,
       status = (case new_status data of None \<Rightarrow> Pending | Some s \<Rightarrow> s),
       errorMessage = new_errorMessage data,
       processingAttempts = (case new_processingAttempts data of None \<Rightarrow> 0 | Some n \<Rightarrow> n),
       createdAt = (case new_createdAt data of None \<Rightarrow> now | Some t \<Rightarrow> t),
       updatedAt = (case new_updatedAt data of None \<Rightarrow> now | Some t \<Rightarrow> t),
       completedAt = new_completedAt data \<rparr>"

text \<open>\<^verbatim>\<open>contentRepository.create\<close>: the insert fails on an id that is already a primary key.\<close>

definition create :: "new_content \<Rightarrow> db \<Rightarrow> (exn + content) \<times> db" where
  "create data d =
     (case dbCall d of
        (Some e, d') \<Rightarrow> (Inl e, d')
      | (None, d') \<Rightarrow>
          (case contents d' (new_id data) of
             Some _ \<Rightarrow> (Inl duplicateKey, d')
           | None \<Rightarrow>
               (let row = insertRow data (clock d')
                in (Inr row, d'\<lparr>contents := (contents d')(new_id data \<mapsto> row)\<rparr>))))"

definition applyPatch :: "content_patch \<Rightarrow> nat \<Rightarrow> content \<Rightarrow> content" where
  "applyPatch data now c =
     c\<lparr> type' := (case set_type data of None \<Rightarrow> type' c | Some v \<Rightarrow> v),
        url := (case set_url data of None \<Rightarrow> url c | Some v \<Rightarrow> v),
        title := (case set_title data of None \<Rightarrow> title c | Some v \<Rightarrow> v),
        description := (case set_description data of None \<Rightarrow> description c | Some v \<Rightarrow> v),
        contentPreview := (case set_contentPreview data of None \<Rightarrow> contentPreview c | Some v \<Rightarrow> v),
        imageUrl := (case set_imageUrl data of None \<Rightarrow> imageUrl c | Some v \<Rightarrow> v),
        status := (case set_status data of None \<Rightarrow> status c | Some v \<Rightarrow> v),
        errorMessage := (case set_errorMessage data of None \<Rightarrow> errorMessage c | Some v \<Rightarrow> v),
        processingAttempts :=
          (case set_processingAttempts data of None \<Rightarrow> processingAttempts c | Some v \<Rightarrow> v),
        createdAt := (case set_createdAt data of None \<Rightarrow> createdAt c | Some v \<Rightarrow> v),
        updatedAt := now,
        completedAt := (case set_completedAt data of None \<Rightarrow> completedAt c | Some v \<Rightarrow> v) \<rparr>"

text \<open>\<^verbatim>\<open>contentRepository.update\<close>: returns the updated row, or \<^verbatim>\<open>null\<close> when no row has the id.\<close>

definition update :: "js_string \<Rightarrow> content_patch \<Rightarrow> db \<Rightarrow> (exn + content option) \<times> db" where
  "update i data d =
     (case dbCall d of
        (Some e, d') \<Rightarrow> (Inl e, d')
      | (None, d') \<Rightarrow>
          (case contents d' i of
             None \<Rightarrow> (Inr None, d')
           | Some c \<Rightarrow>
               (let row = applyPatch data (clock d') c
                in (Inr (Some row), d'\<lparr>contents := (contents d')(i \<mapsto> row)\<rparr>))))"

text \<open>\<^verbatim>\<open>contentRepository.updateStatus\<close>; no row with the id means nothing is updated.\<close>

definition updateStatus ::
  "js_string \<Rightarrow> content_status \<Rightarrow> js_string option \<Rightarrow> db \<Rightarrow> (exn + unit) \<times> db" where
  "updateStatus i status' errorMessage' d =
     (case dbCall d of
        (Some e, d') \<Rightarrow> (Inl e, d')
      | (None, d') \<Rightarrow>
          (case contents d' i of
             None \<Rightarrow> (Inr (), d')
           | Some c \<Rightarrow>
               (let row = c\<lparr> status := status',
                              errorMessage := orNull errorMessage',
                              processingAttempts := processingAttempts c + 1,
                              updatedAt := clock d',
                              completedAt :=
                                (if status' = Completed then Some (clock d') else None) \<rparr>
                in (Inr (), d'\<lparr>contents := (contents d')(i \<mapsto> row)\<rparr>))))"

definition findById :: "js_string \<Rightarrow> db \<Rightarrow> (exn + content option) \<times> db" where
  "findById i d =
     (case dbCall d of
        (Some e, d') \<Rightarrow> (Inl e, d')
      | (None, d') \<Rightarrow> (Inr (contents d' i), d'))"

text \<open>
  The argument of \<^verbatim>\<open>createChunks\<close>, one entry for each chunk. The rows get the ids
  \<^verbatim>\<open>chunk_<contentId>_<index>\<close>; the insert fails on an id that is already a primary
  key and on a content id that has no row (the foreign key). An empty argument makes no
  call to the database.
\<close>

record new_chunk =
  nc_chunkIndex :: int
  nc_content :: js_string
  nc_embedding :: "real list option"
  nc_startOffset :: "int option"
  nc_endOffset :: "int option"
  nc_section :: "js_string option"

function decimal :: "nat \<Rightarrow> js_string" where
  "decimal n = (if n < 10 then [0x30 + of_nat n] else decimal (n div 10) @ [0x30 + of_nat (n mod 10)])"
  by pat_completeness auto
termination
  by (relation "measure id") auto

definition foreignKey :: exn where
  "foreignKey = Error (js ''insert or update violates foreign key constraint'')"

definition chunkRows :: "js_string \<Rightarrow> new_chunk list \<Rightarrow> content_chunk list" where
  "chunkRows contentId chunkData =
     map (\<lambda>(index, chunk).
            \<lparr> row_id = js ''chunk_'' @ contentId @ js ''_'' @ decimal index,
              row_contentId = contentId, row_content = nc_content chunk,
              row_embedding = nc_embedding chunk, row_chunkIndex = nc_chunkIndex chunk,
              row_startOffset = nc_startOffset chunk, row_endOffset = nc_endOffset chunk,
              row_section = nc_section chunk \<rparr>)
         (enumerate 0 chunkData)"

definition createChunks :: "js_string \<Rightarrow> new_chunk list \<Rightarrow> db \<Rightarrow> (exn + content_chunk list) \<times> db" where
  "createChunks contentId chunkData d =
     (if chunkData = [] then (Inr [], d)
      else
        (case dbCall d of
           (Some e, d') \<Rightarrow> (Inl e, d')
         | (None, d') \<Rightarrow>
             (let chunksToInsert = chunkRows contentId chunkData
              in if \<exists>r\<in>set chunksToInsert. row_id r \<in> row_id ` set (contentChunks d')
                 then (Inl duplicateKey, d')
                 else if contents d' contentId = None then (Inl foreignKey, d')
                 else (Inr chunksToInsert,
                       d'\<lparr>contentChunks := contentChunks d' @ chunksToInsert\<rparr>))))"

definition deleteChunks :: "js_string \<Rightarrow> db \<Rightarrow> (exn + unit) \<times> db" where
  "deleteChunks contentId d =
     (case dbCall d of
        (Some e, d') \<Rightarrow> (Inl e, d')
      | (None, d') \<Rightarrow>
          (Inr (), d'\<lparr>contentChunks := filter (\<lambda>r. row_contentId r \<noteq> contentId) (contentChunks d')\<rparr>))"

section \<open>The chunker\<close>

text \<open>
  White space as JavaScript's \<^verbatim>\<open>\s\<close> and \<^verbatim>\<open>trim\<close> see it: the WhiteSpace and
  LineTerminator code points.
\<close>

definition isSpace :: "code_unit \<Rightarrow> bool" where
  "isSpace c =
     (c \<in> {0x09, 0x0A, 0x0B, 0x0C, 0x0D, 0x20, 0xA0, 0x1680, 0x2028, 0x2029, 0x202F,
            0x205F, 0x3000, 0xFEFF}
      \<or> (0x2000 \<le> c \<and> c \<le> 0x200A))"

definition trim :: "js_string \<Rightarrow> js_string" where
  "trim s = rev (dropWhile isSpace (rev (dropWhile isSpace s)))"

text \<open>\<^verbatim>\<open>text.replace(/\s+/g, ' ')\<close>: every maximal run of white space becomes one space.\<close>

function collapse :: "js_string \<Rightarrow> js_string" where
  "collapse [] = []"
| "collapse (c # cs) =
     (if isSpace c then 0x20 # collapse (dropWhile isSpace cs) else c # collapse cs)"
  by pat_completeness auto
termination
  by (relation "measure length") (auto simp: length_dropWhile_le le_imp_less_Suc)

text \<open>
  \<^verbatim>\<open>substring(a, b)\<close> clamps both arguments to the string and swaps them when they are
  out of order. \<^verbatim>\<open>lastIndexOf(p)\<close> is the last position where \<open>p\<close> occurs, or \<open>-1\<close>.
\<close>

definition substring :: "js_string \<Rightarrow> int \<Rightarrow> int \<Rightarrow> js_string" where
  "substring s a b =
     (let n = int (length s);
          a' = max 0 (min a n);
          b' = max 0 (min b n);
          lo = min a' b';
          hi = max a' b'
      in take (nat (hi - lo)) (drop (nat lo) s))"

definition lastIndexOf :: "js_string \<Rightarrow> js_string \<Rightarrow> int" where
  "lastIndexOf s p =
     (case filter (\<lambda>i. take (length p) (drop i s) = p) (rev [0..<Suc (length s)]) of
        [] \<Rightarrow> -1
      | i # _ \<Rightarrow> int i)"

text \<open>
  \<^verbatim>\<open>TextChunk\<close>, and the options of \<^verbatim>\<open>chunkText\<close> (1000 and 100 when left out).
  Sizes and offsets are JavaScript numbers holding integers.
\<close>

record text_chunk =
  content :: js_string
  chunkIndex :: int
  startOffset :: int
  endOffset :: int
  section' :: "js_string option"

record chunk_options =
  opt_maxChunkSize :: "int option"
  opt_overlapSize :: "int option"

definition maxSize :: "chunk_options \<Rightarrow> int" where
  "maxSize opts = (case opt_maxChunkSize opts of None \<Rightarrow> 1000 | Some m \<Rightarrow> m)"

definition overlap :: "chunk_options \<Rightarrow> int" where
  "overlap opts = (case opt_overlapSize opts of None \<Rightarrow> 100 | Some v \<Rightarrow> v)"

text \<open>
  The end of the chunk that starts at \<open>currentPosition\<close>: \<open>maxChunkSize\<close> further on, or
  the end of the text; when that is not the end of the text, just after the last sentence
  boundary found in the 200 code units before it, if there is one at a positive index.
\<close>

definition cutPoint :: "js_string \<Rightarrow> int \<Rightarrow> int \<Rightarrow> int" where
  "cutPoint cleanedText maxChunkSize currentPosition =
     (let n = int (length cleanedText);
          endPosition = min (currentPosition + maxChunkSize) n
      in if endPosition < n then
           (let searchStart = max currentPosition (endPosition - 200);
                searchText = substring cleanedText searchStart endPosition;
                lastPeriod = lastIndexOf searchText (js ''. '');
                lastExclamation = lastIndexOf searchText (js ''! '');
                lastQuestion = lastIndexOf searchText (js ''? '');
                lastNewline = lastIndexOf searchText [0x0A];
                boundaries =
                  map (\<lambda>pos. searchStart + pos + 1)
                    (filter (\<lambda>pos. pos > 0)
                       [lastPeriod, lastExclamation, lastQuestion, lastNewline])
            in case boundaries of [] \<Rightarrow> endPosition | b # bs \<Rightarrow> fold max bs b)
         else endPosition)"

text \<open>
  One turn of the \<^verbatim>\<open>while\<close> loop on the state \<open>(chunks, currentPosition, chunkIndex)\<close>.
  The guard against a position that does not advance reads the start of the last chunk
  pushed so far; with no chunk yet, \<^verbatim>\<open>chunks[chunks.length - 1]?.startOffset\<close> is
  \<^verbatim>\<open>undefined\<close> and the comparison is false.
\<close>

definition chunkStep ::
  "js_string \<Rightarrow> int \<Rightarrow> int \<Rightarrow> text_chunk list \<times> int \<times> int \<Rightarrow> text_chunk list \<times> int \<times> int" where
  "chunkStep cleanedText maxChunkSize overlapSize st =
     (case st of (chunks, currentPosition, chunkIndex') \<Rightarrow>
        (let endPosition = cutPoint cleanedText maxChunkSize currentPosition;
             chunkContent = trim (substring cleanedText currentPosition endPosition);
             pushed = (length chunkContent > 0);
             chunks' = (if pushed
                        then chunks @ [\<lparr> content = chunkContent, chunkIndex = chunkIndex',
                                          startOffset = currentPosition, endOffset = endPosition,
                                          section' = None \<rparr>]
                        else chunks);
             next = endPosition - overlapSize
         in (chunks',
             (if chunks' \<noteq> [] \<and> next \<le> startOffset (last chunks') then endPosition else next),
             (if pushed then chunkIndex' + 1 else chunkIndex'))))"

text \<open>The loop itself. It need not terminate: \<open>None\<close> is a run that never returns.\<close>

partial_function (option) chunkLoop ::
  "js_string \<Rightarrow> int \<Rightarrow> int \<Rightarrow> text_chunk list \<times> int \<times> int \<Rightarrow> text_chunk list option" where
  "chunkLoop cleanedText maxChunkSize overlapSize st =
     (if fst (snd st) < int (length cleanedText)
      then chunkLoop cleanedText maxChunkSize overlapSize
             (chunkStep cleanedText maxChunkSize overlapSize st)
      else Some (fst st))"

declare chunkLoop.simps [code]

definition chunkText :: "js_string \<Rightarrow> chunk_options \<Rightarrow> text_chunk list option" where
  "chunkText text opts =
     (let maxChunkSize' = maxSize opts;
          overlapSize' = overlap opts
      in if length (trim text) = 0 then Some []
         else
           (let cleanedText = trim (collapse text)
            in if int (length cleanedText) \<le> maxChunkSize'
               then Some [\<lparr> content = cleanedText, chunkIndex = 0, startOffset = 0,
                             endOffset = int (length cleanedText), section' = None \<rparr>]
               else chunkLoop cleanedText maxChunkSize' overlapSize' ([], 0, 0)))"

section \<open>The section detector\<close>

text \<open>
  A regular expression over code units: a character class is a list of inclusive
  ranges, possibly negated; \<open>Rep lo hi r\<close> is the bounded repetition \<^verbatim>\<open>r{lo,hi}\<close>.
  Matching is by derivatives.
\<close>

datatype rx =
  Void
  | Eps
  | Cls bool "(code_unit \<times> code_unit) list"
  | Seq rx rx
  | Alt rx rx
  | Star rx
  | Rep nat nat rx

definition inRanges :: "code_unit \<Rightarrow> (code_unit \<times> code_unit) list \<Rightarrow> bool" where
  "inRanges c rs = list_ex (\<lambda>r. fst r \<le> c \<and> c \<le> snd r) rs"

fun nullable :: "rx \<Rightarrow> bool" where
  "nullable Void = False"
| "nullable Eps = True"
| "nullable (Cls negated rs) = False"
| "nullable (Seq a b) = (nullable a \<and> nullable b)"
| "nullable (Alt a b) = (nullable a \<or> nullable b)"
| "nullable (Star r) = True"
| "nullable (Rep lo hi r) = (lo = 0 \<or> nullable r)"

fun deriv :: "code_unit \<Rightarrow> rx \<Rightarrow> rx" where
  "deriv c Void = Void"
| "deriv c Eps = Void"
| "deriv c (Cls negated rs) = (if inRanges c rs \<noteq> negated then Eps else Void)"
| "deriv c (Seq a b) =
     (if nullable a then Alt (Seq (deriv c a) b) (deriv c b) else Seq (deriv c a) b)"
| "deriv c (Alt a b) = Alt (deriv c a) (deriv c b)"
| "deriv c (Star r) = Seq (deriv c r) (Star r)"
| "deriv c (Rep lo hi r) =
     (if hi = 0 then Void else Seq (deriv c r) (Rep (lo - 1) (hi - 1) r))"

definition matches :: "rx \<Rightarrow> js_string \<Rightarrow> bool" where
  "matches r s = nullable (fold deriv s r)"

text \<open>
  \<^verbatim>\<open>pattern.exec(s)\<close> for a pattern \<^verbatim>\<open>/^body$/gm\<close> with \<^verbatim>\<open>lastIndex = 0\<close>: there is
  a match when the body matches some stretch of \<open>s\<close> that begins at the start of a line
  and ends at the end of one. Lines end at the LineTerminator code points.
\<close>

definition isLineTerminator :: "code_unit \<Rightarrow> bool" where
  "isLineTerminator c = (c = 0x0A \<or> c = 0x0D \<or> c = 0x2028 \<or> c = 0x2029)"

definition execMatches :: "rx \<Rightarrow> js_string \<Rightarrow> bool" where
  "execMatches body s =
     list_ex
       (\<lambda>i. (i = 0 \<or> isLineTerminator (s ! (i - 1)))
            \<and> list_ex
                (\<lambda>j. (j = length s \<or> isLineTerminator (s ! j))
                     \<and> matches body (take (j - i) (drop i s)))
                [i..<Suc (length s)])
       [0..<Suc (length s)]"

text \<open>The pieces of \<^verbatim>\<open>SECTION_PATTERNS\<close>. With the flag \<^verbatim>\<open>i\<close> a letter matches in both cases.\<close>

definition lit :: "code_unit \<Rightarrow> rx" where
  "lit c = Cls False [(c, c)]"

definition letter :: "code_unit \<Rightarrow> rx" where
  "letter c = Cls False [(c, c), (c - 32, c - 32)]"

definition keyword :: "string \<Rightarrow> rx" where
  "keyword w = foldr (\<lambda>c r. Seq (letter c) r) (js w) Eps"

definition plus :: "rx \<Rightarrow> rx" where
  "plus r = Seq r (Star r)"

definition digit :: rx where
  "digit = Cls False [(0x30, 0x39)]"

definition upper :: rx where
  "upper = Cls False [(0x41, 0x5A)]"

definition spaceRanges :: "(code_unit \<times> code_unit) list" where
  "spaceRanges =
     [(0x09, 0x0D), (0x20, 0x20), (0xA0, 0xA0), (0x1680, 0x1680), (0x2000, 0x200A),
      (0x2028, 0x2029), (0x202F, 0x202F), (0x205F, 0x205F), (0x3000, 0x3000),
      (0xFEFF, 0xFEFF)]"

definition space :: rx where
  "space = Cls False spaceRanges"

definition anyChar :: rx where
  "anyChar = Cls True [(0x0A, 0x0A), (0x0D, 0x0D), (0x2028, 0x2029)]"

definition numeral' :: rx where
  "numeral' =
     foldr Alt
       [plus digit,
        plus (Cls False [(0x69, 0x69), (0x49, 0x49), (0x76, 0x76), (0x56, 0x56),
                         (0x78, 0x78), (0x58, 0x58), (0x6C, 0x6C), (0x4C, 0x4C),
                         (0x63, 0x63), (0x43, 0x43), (0x64, 0x64), (0x44, 0x44),
                         (0x6D, 0x6D), (0x4D, 0x4D)]),
        keyword ''one'', keyword ''two'', keyword ''three'', keyword ''four'',
        keyword ''five'', keyword ''six'', keyword ''seven'', keyword ''eight'',
        keyword ''nine'']
       (keyword ''ten'')"

text \<open>\<^verbatim>\<open>[:\s\-]*(.*)?\<close>, the tail of the chapter, part and section patterns.\<close>

definition tail :: rx where
  "tail = Seq (Star (Cls False ((0x3A, 0x3A) # (0x2D, 0x2D) # spaceRanges)))
              (Alt (Star anyChar) Eps)"

text \<open>\<^verbatim>\<open>/^(#{1,6})\s+(.+)$/gm\<close>\<close>

definition markdownHeading :: rx where
  "markdownHeading = Seq (Rep 1 6 (lit 0x23)) (Seq (plus space) (plus anyChar))"

text \<open>\<^verbatim>\<open>/^(chapter|chapitre)\s+(\d+|[ivxlcdm]+|one|...|ten)[:\s\-]*(.*)?$/gim\<close>\<close>

definition chapterHeading :: rx where
  "chapterHeading =
     Seq (Alt (keyword ''chapter'') (keyword ''chapitre'')) (Seq (plus space) (Seq numeral' tail))"

text \<open>\<^verbatim>\<open>/^(part)\s+(\d+|[ivxlcdm]+|one|...|ten)[:\s\-]*(.*)?$/gim\<close>\<close>

definition partHeading :: rx where
  "partHeading = Seq (keyword ''part'') (Seq (plus space) (Seq numeral' tail))"

text \<open>\<^verbatim>\<open>/^(section)\s+([\d.]+)[:\s\-]*(.*)?$/gim\<close>\<close>

definition sectionHeading :: rx where
  "sectionHeading =
     Seq (keyword ''section'')
       (Seq (plus space) (Seq (plus (Cls False [(0x30, 0x39), (0x2E, 0x2E)])) tail))"

text \<open>\<^verbatim>\<open>/^(\d+(?:\.\d+)*)\s+([A-Z][^\n]+)$/gm\<close>\<close>

definition numberedHeading :: rx where
  "numberedHeading =
     Seq (Seq (plus digit) (Star (Seq (lit 0x2E) (plus digit))))
       (Seq (plus space) (Seq upper (plus (Cls True [(0x0A, 0x0A)]))))"

text \<open>\<^verbatim>\<open>/^([A-Z][A-Z\s]{4,50})$/gm\<close>\<close>

definition capsHeading :: rx where
  "capsHeading = Seq upper (Rep 4 50 (Cls False ((0x41, 0x5A) # spaceRanges)))"

definition SECTION_PATTERNS :: "rx list" where
  "SECTION_PATTERNS =
     [markdownHeading, chapterHeading, partHeading, sectionHeading, numberedHeading,
      capsHeading]"

definition isHeading :: "js_string \<Rightarrow> bool" where
  "isHeading line = list_ex (\<lambda>pattern. execMatches pattern (trim line)) SECTION_PATTERNS"

text \<open>\<^verbatim>\<open>text.split('\n')\<close>\<close>

fun splitLines :: "js_string \<Rightarrow> js_string list" where
  "splitLines [] = [[]]"
| "splitLines (c # cs) =
     (if c = 0x0A then [] # splitLines cs
      else (case splitLines cs of [] \<Rightarrow> [[c]] | l # ls \<Rightarrow> (c # l) # ls))"

text \<open>
  \<^verbatim>\<open>DocumentSection\<close>. The title of a heading is read from the capture groups of the
  pattern that matched; that reading is a parameter, \<open>headingTitle\<close>, from the line to
  its title.
\<close>

record document_section =
  sec_title :: js_string
  sec_content :: js_string
  sec_startOffset :: int
  sec_endOffset :: int

text \<open>One line of the \<^verbatim>\<open>for\<close> loop, on \<open>(sections, currentSection, currentOffset)\<close>.\<close>

definition sectionStep ::
  "(js_string \<Rightarrow> js_string) \<Rightarrow> js_string \<Rightarrow> js_string
     \<Rightarrow> document_section list \<times> document_section option \<times> int
     \<Rightarrow> document_section list \<times> document_section option \<times> int" where
  "sectionStep headingTitle text line st =
     (case st of (sections, currentSection, currentOffset) \<Rightarrow>
        (let lineStart = currentOffset;
             lineEnd = currentOffset + int (length line)
         in if isHeading line then
              (let sections' =
                     (case currentSection of
                        None \<Rightarrow> sections
                      | Some cur \<Rightarrow>
                          (let closed = cur\<lparr> sec_endOffset := lineStart,
                                             sec_content :=
                                               trim (substring text (sec_startOffset cur) lineStart) \<rparr>
                           in if length (sec_content closed) > 0 then sections @ [closed]
                              else sections))
               in (sections',
                   Some \<lparr> sec_title = headingTitle line, sec_content = [],
                          sec_startOffset = lineStart, sec_endOffset = int (length text) \<rparr>,
                   lineEnd + 1))
            else (sections, currentSection, lineEnd + 1)))"

definition detectSections :: "(js_string \<Rightarrow> js_string) \<Rightarrow> js_string \<Rightarrow> document_section list" where
  "detectSections headingTitle text =
     (case fold (sectionStep headingTitle text) (splitLines text) ([], None, 0) of
        (sections, currentSection, currentOffset) \<Rightarrow>
          (let sections' =
                 (case currentSection of
                    None \<Rightarrow> sections
                  | Some cur \<Rightarrow>
                      (let final = cur\<lparr> sec_content :=
                                          trim (substring text (sec_startOffset cur)
                                                  (int (length text))) \<rparr>
                       in if length (sec_content final) > 0 then sections @ [final]
                          else sections))
           in if sections' = []
              then [\<lparr> sec_title = js ''Document'', sec_content = trim text,
                       sec_startOffset = 0, sec_endOffset = int (length text) \<rparr>]
              else sections'))"

section \<open>Chunking a document by sections\<close>

record document_options =
  doc_maxChunkSize :: "int option"
  doc_overlapSize :: "int option"
  doc_preserveSections :: "bool option"

text \<open>
  The loop over the sections: each section's content is chunked on its own, the
  offsets are moved by the section's start, the chunks are numbered on from the chunks
  collected so far and carry the section's title.
\<close>

fun collectSections ::
  "document_section list \<Rightarrow> chunk_options \<Rightarrow> text_chunk list \<Rightarrow> text_chunk list option" where
  "collectSections [] opts allChunks = Some allChunks"
| "collectSections (s # ss) opts allChunks =
     (case chunkText (sec_content s) opts of
        None \<Rightarrow> None
      | Some sectionChunks \<Rightarrow>
          collectSections ss opts
            (allChunks @
             map (\<lambda>(k, chunk).
                    \<lparr> content = content chunk,
                      chunkIndex = int (length allChunks) + int k,
                      startOffset = sec_startOffset s + startOffset chunk,
                      endOffset = sec_startOffset s + endOffset chunk,
                      section' = Some (sec_title s) \<rparr>)
                 (enumerate 0 sectionChunks)))"

definition chunkDocument ::
  "(js_string \<Rightarrow> js_string) \<Rightarrow> js_string \<Rightarrow> document_options \<Rightarrow> text_chunk list option" where
  "chunkDocument headingTitle text opts =
     (let maxChunkSize' = (case doc_maxChunkSize opts of None \<Rightarrow> 2000 | Some m \<Rightarrow> m);
          overlapSize' = (case doc_overlapSize opts of None \<Rightarrow> 200 | Some v \<Rightarrow> v);
          preserveSections = (case doc_preserveSections opts of None \<Rightarrow> True | Some p \<Rightarrow> p);
          sizes = \<lparr> opt_maxChunkSize = Some maxChunkSize', opt_overlapSize = Some overlapSize' \<rparr>
      in if length (trim text) = 0 then Some []
         else if int (length text) \<le> maxChunkSize'
         then Some [\<lparr> content = trim text, chunkIndex = 0, startOffset = 0,
                       endOffset = int (length text), section' = None \<rparr>]
         else if preserveSections
         then collectSections (detectSections headingTitle text) sizes []
         else chunkText text sizes)"

section \<open>The embedding orchestrator\<close>

text \<open>
  The embedding provider (\<^verbatim>\<open>embedMany\<close> of the AI SDK) is a capability: it takes the
  texts and the number of parallel calls and returns the vectors or throws.
  \<^verbatim>\<open>generateEmbeddings\<close> calls it with 5 parallel calls unless told otherwise and
  rethrows a failure under its own message.
\<close>

type_synonym embedding = "real list"
type_synonym embed_many = "js_string list \<Rightarrow> int \<Rightarrow> exn + embedding list"

definition generateEmbeddings :: "embed_many \<Rightarrow> js_string list \<Rightarrow> int option \<Rightarrow> exn + embedding list" where
  "generateEmbeddings embedMany texts maxParallelCalls =
     (case embedMany texts (case maxParallelCalls of None \<Rightarrow> 5 | Some p \<Rightarrow> p) of
        Inr embeddings \<Rightarrow> Inr embeddings
      | Inl error \<Rightarrow> Inl (Error (js ''Failed to generate embeddings: '' @ getErrorMessage error)))"

text \<open>
  \<^verbatim>\<open>Array.prototype.slice(start, end)\<close>: a negative index counts from the end, and both
  are clamped to the array.
\<close>

definition slice :: "'a list \<Rightarrow> int \<Rightarrow> int \<Rightarrow> 'a list" where
  "slice xs start end' =
     (let n = int (length xs);
          k = (if start < 0 then max (n + start) 0 else min start n);
          final = (if end' < 0 then max (n + end') 0 else min end' n)
      in take (nat (final - k)) (drop (nat k) xs))"

text \<open>
  \<^verbatim>\<open>Math.ceil(texts.length / batchSize)\<close> is a JavaScript number: a division by zero
  gives \<^verbatim>\<open>Infinity\<close>, or \<^verbatim>\<open>NaN\<close> for \<^verbatim>\<open>0 / 0\<close>. \<open>below i b\<close> is \<^verbatim>\<open>i < b\<close>.
\<close>

datatype js_count = Finite int | Infinity | NaN

definition batchCount :: "nat \<Rightarrow> int \<Rightarrow> js_count" where
  "batchCount n batchSize =
     (if batchSize = 0 then (if n = 0 then NaN else Infinity)
      else Finite (- ((- int n) div batchSize)))"

fun below :: "int \<Rightarrow> js_count \<Rightarrow> bool" where
  "below i (Finite k) = (i < k)"
| "below i Infinity = True"
| "below i NaN = False"

record batch_options =
  opt_batchSize :: "int option"

definition batchSizeOf :: "batch_options \<Rightarrow> int" where
  "batchSizeOf opts = (case opt_batchSize opts of None \<Rightarrow> 100 | Some b \<Rightarrow> b)"

text \<open>
  The \<^verbatim>\<open>for\<close> loop of \<^verbatim>\<open>batchGenerateEmbeddings\<close> on the state
  \<open>(i, allEmbeddings, reports)\<close>, where \<open>reports\<close> lists the arguments of the calls of
  \<^verbatim>\<open>onProgress\<close>. The pause between batches is not represented. With an infinite
  number of batches the loop never ends: \<open>None\<close>.
\<close>

partial_function (option) batchLoop ::
  "embed_many \<Rightarrow> js_string list \<Rightarrow> int \<Rightarrow> js_count
     \<Rightarrow> int \<times> embedding list \<times> (int \<times> int) list
     \<Rightarrow> (exn + embedding list \<times> (int \<times> int) list) option" where
  "batchLoop embedMany texts batchSize batches st =
     (case st of (i, allEmbeddings, reports) \<Rightarrow>
        if below i batches then
          (let start = i * batchSize;
               end' = min (start + batchSize) (int (length texts));
               batch = slice texts start end'
           in case generateEmbeddings embedMany batch (Some 5) of
                Inl error \<Rightarrow> Some (Inl error)
              | Inr embeddings \<Rightarrow>
                  batchLoop embedMany texts batchSize batches
                    (i + 1, allEmbeddings @ embeddings, reports @ [(end', int (length texts))]))
        else Some (Inr (allEmbeddings, reports)))"

declare batchLoop.simps [code]

definition batchGenerateEmbeddings ::
  "embed_many \<Rightarrow> js_string list \<Rightarrow> batch_options
     \<Rightarrow> (exn + embedding list \<times> (int \<times> int) list) option" where
  "batchGenerateEmbeddings embedMany texts opts =
     (let batchSize = batchSizeOf opts;
          batches = batchCount (length texts) batchSize
      in batchLoop embedMany texts batchSize batches (0, [], []))"

section \<open>The similarity ranker\<close>














section \<open>The ingestion service\<close>

text \<open>
  What the service calls outside the repository is a record of capabilities: the id
  generator's answer, blob storage, image analysis, the two extractors, the embedding
  provider and the reading of heading titles. Each either returns or throws.
\<close>

record image_metadata =
  meta_title :: js_string
  meta_description :: js_string
  meta_tags :: "js_string list"

record extracted_content =
  ex_title :: js_string
  ex_description :: js_string
  ex_content :: js_string
  ex_thumbnail :: "js_string option"

record services =
  sv_nanoid :: js_string
  sv_uploadImage :: "8 word list \<Rightarrow> js_string \<Rightarrow> exn + js_string"
  sv_analyze :: "8 word list \<Rightarrow> js_string \<Rightarrow> js_string option \<Rightarrow> exn + image_metadata"
  sv_extractYoutube :: "js_string \<Rightarrow> exn + extracted_content"
  sv_extractWeb :: "js_string \<Rightarrow> exn + extracted_content"
  sv_embedMany :: embed_many
  sv_headingTitle :: "js_string \<Rightarrow> js_string"

definition includes' :: "js_string \<Rightarrow> js_string \<Rightarrow> bool" where
  "includes' s p = list_ex (\<lambda>i. take (length p) (drop i s) = p) [0..<Suc (length s)]"

definition isYouTubeUrl :: "js_string \<Rightarrow> bool" where
  "isYouTubeUrl u = (includes' u (js ''youtube.com/watch'') \<or> includes' u (js ''youtu.be/''))"

definition extractContent :: "services \<Rightarrow> js_string \<Rightarrow> exn + extracted_content" where
  "extractContent sv u = (if isYouTubeUrl u then sv_extractYoutube sv u else sv_extractWeb sv u)"

fun join :: "js_string list \<Rightarrow> js_string \<Rightarrow> js_string" where
  "join [] sep = []"
| "join [x] sep = x"
| "join (x # y # ys) sep = x @ sep @ join (y # ys) sep"

text \<open>\<^verbatim>\<open>fullText.length > 5000 ? chunkDocument(fullText) : chunkText(fullText)\<close>\<close>

definition chunkFor :: "services \<Rightarrow> js_string \<Rightarrow> text_chunk list option" where
  "chunkFor sv fullText =
     (if length fullText > 5000
      then chunkDocument (sv_headingTitle sv) fullText
             \<lparr> doc_maxChunkSize = None, doc_overlapSize = None, doc_preserveSections = None \<rparr>
      else chunkText fullText \<lparr> opt_maxChunkSize = None, opt_overlapSize = None \<rparr>)"

text \<open>The chunks with their embeddings; \<^verbatim>\<open>embeddings[i]\<close> past the end is \<^verbatim>\<open>undefined\<close>.\<close>

definition withEmbeddings :: "text_chunk list \<Rightarrow> embedding list \<Rightarrow> new_chunk list" where
  "withEmbeddings textChunks embeddings =
     map (\<lambda>(i, chunk).
            \<lparr> nc_chunkIndex = chunkIndex chunk, nc_content = content chunk,
              nc_embedding = (if i < length embeddings then Some (embeddings ! i) else None),
              nc_startOffset = Some (startOffset chunk), nc_endOffset = Some (endOffset chunk),
              nc_section = section' chunk \<rparr>)
         (enumerate 0 textChunks)"

text \<open>
  Chunk, embed and store: the tail that \<^verbatim>\<open>processUrl\<close> and \<^verbatim>\<open>retryFailedContent\<close>
  share. A run is \<open>None\<close> when it never returns, and otherwise what it returned or
  threw, with the database it left.
\<close>

definition storeChunks ::
  "services \<Rightarrow> js_string \<Rightarrow> js_string \<Rightarrow> db \<Rightarrow> ((exn + nat) \<times> db) option" where
  "storeChunks sv contentId fullText d =
     (case chunkFor sv fullText of
        None \<Rightarrow> None
      | Some textChunks \<Rightarrow>
          (case generateEmbeddings (sv_embedMany sv) (map content textChunks) None of
             Inl error \<Rightarrow> Some (Inl error, d)
           | Inr embeddings \<Rightarrow>
               (case createChunks contentId (withEmbeddings textChunks embeddings) d of
                  (Inl error, d') \<Rightarrow> Some (Inl error, d')
                | (Inr rows, d') \<Rightarrow> Some (Inr (length textChunks), d'))))"

subsection \<open>\<^verbatim>\<open>processImage\<close>\<close>

text \<open>
  \<^verbatim>\<open>processImage\<close> chunks its text with \<^verbatim>\<open>chunkText\<close> and its default sizes, whatever
  the length, and gives its chunks no section.
\<close>

definition imageChunkData :: "text_chunk list \<Rightarrow> embedding list \<Rightarrow> new_chunk list" where
  "imageChunkData textChunks embeddings =
     map (\<lambda>(i, chunk).
            \<lparr> nc_chunkIndex = chunkIndex chunk, nc_content = content chunk,
              nc_embedding = (if i < length embeddings then Some (embeddings ! i) else None),
              nc_startOffset = Some (startOffset chunk), nc_endOffset = Some (endOffset chunk),
              nc_section = None \<rparr>)
         (enumerate 0 textChunks)"

definition storeImageChunks ::
  "services \<Rightarrow> js_string \<Rightarrow> js_string \<Rightarrow> db \<Rightarrow> ((exn + nat) \<times> db) option" where
  "storeImageChunks sv contentId textForEmbedding d =
     (case chunkText textForEmbedding \<lparr> opt_maxChunkSize = None, opt_overlapSize = None \<rparr> of
        None \<Rightarrow> None
      | Some textChunks \<Rightarrow>
          (case generateEmbeddings (sv_embedMany sv) (map content textChunks) None of
             Inl error \<Rightarrow> Some (Inl error, d)
           | Inr embeddings \<Rightarrow>
               (case createChunks contentId (imageChunkData textChunks embeddings) d of
                  (Inl error, d') \<Rightarrow> Some (Inl error, d')
                | (Inr rows, d') \<Rightarrow> Some (Inr (length textChunks), d'))))"

record image_input =
  in_buffer :: "8 word list"
  in_filename :: js_string
  in_contentType :: js_string
  in_context :: "js_string option"

record image_output =
  out_success :: bool
  out_contentId :: js_string
  out_title :: "js_string option"
  out_error :: "js_string option"

definition rowOf :: "js_string \<Rightarrow> content_type \<Rightarrow> js_string option \<Rightarrow> js_string \<Rightarrow> js_string
    \<Rightarrow> js_string option \<Rightarrow> js_string option \<Rightarrow> content_status \<Rightarrow> js_string option \<Rightarrow> new_content" where
  "rowOf i ty u t desc preview img st msg =
     \<lparr> new_id = i, new_type = ty, new_url = u, new_title = t, new_description = desc,
       new_contentPreview = preview, new_imageUrl = img, new_status = Some st,
       new_errorMessage = msg, new_processingAttempts = None, new_createdAt = None,
       new_updatedAt = None, new_completedAt = None \<rparr>"

text \<open>The body of the \<^verbatim>\<open>try\<close> block.\<close>

definition processImageTry ::
  "services \<Rightarrow> image_input \<Rightarrow> js_string \<Rightarrow> db \<Rightarrow> ((exn + image_output) \<times> db) option" where
  "processImageTry sv input contentId d =
     (case sv_uploadImage sv (in_buffer input) (in_contentType input) of
        Inl error \<Rightarrow> Some (Inl error, d)
      | Inr blobUrl \<Rightarrow>
          (case sv_analyze sv (in_buffer input) (in_contentType input) (in_context input) of
             Inl error \<Rightarrow> Some (Inl error, d)
           | Inr metadata \<Rightarrow>
               (let title' = (if meta_title metadata = [] then in_filename input
                              else meta_title metadata);
                    description' = (if meta_description metadata = [] then js ''Image uploaded''
                                    else meta_description metadata)
                in case create (rowOf contentId Image None title' description'
                                  (Some (take 500 description')) (Some blobUrl) Completed None) d of
                     (Inl error, d1) \<Rightarrow> Some (Inl error, d1)
                   | (Inr content', d1) \<Rightarrow>
                       (case storeImageChunks sv contentId
                               (title' @ [0x0A] @ description' @ [0x0A]
                                  @ join (meta_tags metadata) (js '' '')) d1 of
                          None \<Rightarrow> None
                        | Some (Inl error, d2) \<Rightarrow> Some (Inl error, d2)
                        | Some (Inr n, d2) \<Rightarrow>
                            Some (Inr \<lparr> out_success = True, out_contentId = contentId,
                                        out_title = Some (title content'), out_error = None \<rparr>,
                                  d2)))))"

text \<open>
  \<^verbatim>\<open>processImage\<close>: what the \<^verbatim>\<open>try\<close> block throws is caught, a failed row is
  created, a failure of that insert is caught as well, and the call returns.
\<close>

definition processImage ::
  "services \<Rightarrow> image_input \<Rightarrow> db \<Rightarrow> ((exn + image_output) \<times> db) option" where
  "processImage sv input d =
     (let contentId = js ''img_'' @ sv_nanoid sv
      in case processImageTry sv input contentId d of
           None \<Rightarrow> None
         | Some (Inr out, d') \<Rightarrow> Some (Inr out, d')
         | Some (Inl error, d') \<Rightarrow>
             (let errorMsg = getErrorMessage error;
                  recorded = create (rowOf contentId Image None (in_filename input)
                                       (js ''Failed to process'') None None Failed (Some errorMsg)) d'
              in Some (Inr \<lparr> out_success = False, out_contentId = contentId, out_title = None,
                              out_error = Some errorMsg \<rparr>,
                       snd recorded)))"

subsection \<open>\<^verbatim>\<open>processUrl\<close>\<close>

record url_input =
  in_url :: js_string
  in_userNote :: "js_string option"

record url_output =
  uo_contentId :: js_string
  uo_type :: content_type
  uo_title :: js_string
  uo_description :: js_string
  uo_url :: "js_string option"
  uo_imageUrl :: "js_string option"
  uo_chunksCreated :: nat

definition urlType :: "js_string \<Rightarrow> content_type" where
  "urlType u = (if isYouTubeUrl u then Youtube else Webpage)"

definition processUrlTry ::
  "services \<Rightarrow> url_input \<Rightarrow> js_string \<Rightarrow> db \<Rightarrow> ((exn + url_output) \<times> db) option" where
  "processUrlTry sv input contentId d =
     (case extractContent sv (in_url input) of
        Inl error \<Rightarrow> Some (Inl error, d)
      | Inr extractedContent \<Rightarrow>
          (let title' = (if ex_title extractedContent = [] then js ''Untitled''
                         else ex_title extractedContent);
               description' = ex_description extractedContent
           in case create (rowOf contentId (urlType (in_url input)) (Some (in_url input)) title'
                             description' (Some (take 500 (ex_content extractedContent)))
                             (ex_thumbnail extractedContent) Completed None) d of
                (Inl error, d1) \<Rightarrow> Some (Inl error, d1)
              | (Inr content', d1) \<Rightarrow>
                  (let body = title' @ [0x0A] @ description' @ [0x0A] @ ex_content extractedContent;
                       fullText = (case in_userNote input of
                                     None \<Rightarrow> body
                                   | Some note \<Rightarrow> if note = [] then body else note @ [0x0A] @ body)
                   in case storeChunks sv contentId fullText d1 of
                        None \<Rightarrow> None
                      | Some (Inl error, d2) \<Rightarrow> Some (Inl error, d2)
                      | Some (Inr n, d2) \<Rightarrow>
                          Some (Inr \<lparr> uo_contentId = id' content', uo_type = type' content',
                                      uo_title = title content',
                                      uo_description = description content',
                                      uo_url = url content', uo_imageUrl = imageUrl content',
                                      uo_chunksCreated = n \<rparr>,
                                d2))))"

text \<open>
  \<^verbatim>\<open>processUrl\<close>: the failure is recorded as in \<^verbatim>\<open>processImage\<close>, then an error that
  carries the message of the failure is thrown.
\<close>

definition processUrl ::
  "services \<Rightarrow> url_input \<Rightarrow> db \<Rightarrow> ((exn + url_output) \<times> db) option" where
  "processUrl sv input d =
     (let contentId = js ''url_'' @ sv_nanoid sv
      in case processUrlTry sv input contentId d of
           None \<Rightarrow> None
         | Some (Inr out, d') \<Rightarrow> Some (Inr out, d')
         | Some (Inl error, d') \<Rightarrow>
             (let errorMsg = getErrorMessage error;
                  recorded = create (rowOf contentId (urlType (in_url input)) (Some (in_url input))
                                       (js ''Failed to process'') (js ''Content extraction failed'')
                                       None None Failed (Some errorMsg)) d'
              in Some (Inl (Error (js ''Failed to process URL: '' @ errorMsg)), snd recorded)))"

subsection \<open>\<^verbatim>\<open>retryFailedContent\<close>\<close>

definition retryPatch :: "extracted_content \<Rightarrow> content_patch" where
  "retryPatch extractedContent =
     \<lparr> set_type = None, set_url = None,
       set_title = Some (ex_title extractedContent),
       set_description = Some (ex_description extractedContent),
       set_contentPreview = Some (Some (take 500 (ex_content extractedContent))),
       set_imageUrl = Some (ex_thumbnail extractedContent),
       set_status = Some Completed,
       set_errorMessage = Some None,
       set_processingAttempts = None, set_createdAt = None, set_completedAt = None \<rparr>"

definition retryTry ::
  "services \<Rightarrow> js_string \<Rightarrow> js_string \<Rightarrow> db \<Rightarrow> ((exn + nat) \<times> db) option" where
  "retryTry sv contentId contentUrl d =
     (case extractContent sv contentUrl of
        Inl error \<Rightarrow> Some (Inl error, d)
      | Inr extractedContent \<Rightarrow>
          (case update contentId (retryPatch extractedContent) d of
             (Inl error, d1) \<Rightarrow> Some (Inl error, d1)
           | (Inr updated, d1) \<Rightarrow>
               (case deleteChunks contentId d1 of
                  (Inl error, d2) \<Rightarrow> Some (Inl error, d2)
                | (Inr u, d2) \<Rightarrow>
                    storeChunks sv contentId
                      (ex_title extractedContent @ [0x0A] @ ex_description extractedContent
                         @ [0x0A] @ ex_content extractedContent) d2)))"

text \<open>
  The three checks of \<^verbatim>\<open>retryFailedContent\<close> and what follows them; the third is
  \<^verbatim>\<open>content.type === 'image' || !content.url\<close>, where a null and an empty URL are falsy. The write of the
  failure, \<^verbatim>\<open>updateStatus(contentId, 'failed', errorMsg)\<close>, stands in the \<^verbatim>\<open>catch\<close>
  block unguarded: when it throws, that is what the call throws.
\<close>

definition retryFailedContent ::
  "services \<Rightarrow> js_string \<Rightarrow> db \<Rightarrow> ((exn + nat) \<times> db) option" where
  "retryFailedContent sv contentId d =
     (case findById contentId d of
        (Inl error, d0) \<Rightarrow> Some (Inl error, d0)
      | (Inr None, d0) \<Rightarrow> Some (Inl (Error (js ''Content not found'')), d0)
      | (Inr (Some content'), d0) \<Rightarrow>
          if status content' \<noteq> Failed
          then Some (Inl (Error (js ''Content is not in failed state'')), d0)
          else
            (case (if type' content' = Image then None else url content') of
               None \<Rightarrow> Some (Inl (Error (js ''Image content requires re-upload to retry'')), d0)
             | Some contentUrl \<Rightarrow>
                 if contentUrl = []
                 then Some (Inl (Error (js ''Image content requires re-upload to retry'')), d0)
                 else
                   (case updateStatus contentId Processing None d0 of
                      (Inl error, d1) \<Rightarrow> Some (Inl error, d1)
                    | (Inr u, d1) \<Rightarrow>
                        (case retryTry sv contentId contentUrl d1 of
                           None \<Rightarrow> None
                         | Some (Inr n, d2) \<Rightarrow> Some (Inr n, d2)
                         | Some (Inl error, d2) \<Rightarrow>
                             (let errorMsg = getErrorMessage error
                              in case updateStatus contentId Failed (Some errorMsg) d2 of
                                   (Inl error', d3) \<Rightarrow> Some (Inl error', d3)
                                 | (Inr u', d3) \<Rightarrow>
                                     Some (Inl (Error (js ''Failed to retry content: ''
                                                        @ errorMsg)),
                                           d3))))))"

section \<open>Predicates used in the proofs\<close>

text \<open>No two neighbouring code units are both white space.\<close>

fun spaced :: "js_string \<Rightarrow> bool" where
  "spaced (c # d # cs) = (\<not> (isSpace c \<and> isSpace d) \<and> spaced (d # cs))"
| "spaced _ = True"

text \<open>What \<^verbatim>\<open>replace(/\s+/g, ' ').trim()\<close> establishes.\<close>

definition normalised :: "js_string \<Rightarrow> bool" where
  "normalised t \<longleftrightarrow>
     (\<forall>i. Suc i < length t \<longrightarrow> \<not> (isSpace (t ! i) \<and> isSpace (t ! Suc i)))
     \<and> (t \<noteq> [] \<longrightarrow> \<not> isSpace (last t))"

text \<open>Each chunk starts no later than the chunk before it ends.\<close>

fun chained :: "text_chunk list \<Rightarrow> bool" where
  "chained (a # b # cs) = (startOffset b \<le> endOffset a \<and> chained (b # cs))"
| "chained _ = True"

text \<open>The invariant of the chunking loop on a text of length \<open>n\<close>.\<close>

definition loopInv :: "int \<Rightarrow> text_chunk list \<Rightarrow> int \<Rightarrow> bool" where
  "loopInv n cs cur \<longleftrightarrow>
     (cs = [] \<and> cur = 0) \<or>
     (cs \<noteq> [] \<and> startOffset (hd cs) = 0
      \<and> (\<forall>c\<in>set cs. 0 \<le> startOffset c \<and> startOffset c < endOffset c \<and> endOffset c \<le> n)
      \<and> chained cs \<and> startOffset (last cs) < cur \<and> cur \<le> endOffset (last cs))"

text \<open>The chunk's content is the trimmed slice of \<open>t\<close> between its offsets.\<close>

definition sliceOf :: "js_string \<Rightarrow> text_chunk \<Rightarrow> bool" where
  "sliceOf t c \<longleftrightarrow> content c = trim (substring t (startOffset c) (endOffset c))"

text \<open>The primary key of \<^verbatim>\<open>contents\<close>: every row is stored under its own id.\<close>

definition keyed :: "db \<Rightarrow> bool" where
  "keyed d \<longleftrightarrow> (\<forall>i t. contents d i = Some t \<longrightarrow> id' t = i)"


text \<open>What a row records of an attempt: its status, its error message, its attempt counter.\<close>

definition recordOf :: "db \<Rightarrow> js_string \<Rightarrow> (content_status \<times> js_string option \<times> int) option" where
  "recordOf d i = map_option (\<lambda>c. (status c, errorMessage c, processingAttempts c)) (contents d i)"

section \<open>Example data\<close>

text \<open>An empty database, and one holding a single failed webpage.\<close>

definition emptyDb :: db where
  "emptyDb = \<lparr> contents = Map.empty, contentChunks = [], faults = [], clock = 7 \<rparr>"

definition failedPage :: content where
  "failedPage =
     \<lparr> id' = js ''url_1'', type' = Webpage, url = Some (js ''https://example.org''),
       title = js ''Failed to process'', description = js ''Content extraction failed'',
       contentPreview = None, imageUrl = None, status = Failed,
       errorMessage = Some (js ''timeout''), processingAttempts = 2,
       createdAt = 3, updatedAt = 3, completedAt = None \<rparr>"

definition failedDb :: db where
  "failedDb = emptyDb\<lparr>contents := [js ''url_1'' \<mapsto> failedPage]\<rparr>"

text \<open>
  The same database on a connection that answers two statements and fails on the third.
\<close>

definition lostDb :: db where
  "lostDb = failedDb\<lparr>faults := [None, None, Some (Error (js ''connection lost''))]\<rparr>"

definition completedImage :: new_content where
  "completedImage =
     \<lparr> new_id = js ''img_1'', new_type = Image, new_url = None,
       new_title = js ''cat.png'', new_description = js ''Image uploaded'',
       new_contentPreview = Some (js ''Image uploaded''), new_imageUrl = Some (js ''blob:1''),
       new_status = Some Completed, new_errorMessage = None,
       new_processingAttempts = None, new_createdAt = None, new_updatedAt = None,
       new_completedAt = None \<rparr>"

text \<open>Options and normalised texts for the chunker.\<close>

definition defaultOptions :: chunk_options where
  "defaultOptions = \<lparr> opt_maxChunkSize = None, opt_overlapSize = None \<rparr>"

definition tinyOptions :: chunk_options where
  "tinyOptions = \<lparr> opt_maxChunkSize = Some 1, opt_overlapSize = Some 1 \<rparr>"

definition smallOptions :: chunk_options where
  "smallOptions = \<lparr> opt_maxChunkSize = Some 4, opt_overlapSize = Some 1 \<rparr>"

definition abcd :: js_string where
  "abcd = [0x61, 0x62, 0x20, 0x63, 0x64]"

definition a_b :: js_string where
  "a_b = [0x61, 0x20, 0x62]"


text \<open>An embedding capability that maps every text to the vector of its length.\<close>

definition lengthVector :: "js_string \<Rightarrow> embedding" where
  "lengthVector t = [real (length t)]"

definition lengthEmbedMany :: embed_many where
  "lengthEmbedMany texts maxParallelCalls = Inr (map lengthVector texts)"







text \<open>A two-line document: a line of text, then a markdown heading.\<close>

definition preambleDoc :: js_string where
  "preambleDoc = js ''x'' @ [0x0A] @ js ''# A''"

text \<open>
  Two sets of capabilities with the id \<^verbatim>\<open>1\<close>: one where every outside call throws, and
  one where only the embedding provider does.
\<close>

definition catMetadata :: image_metadata where
  "catMetadata = \<lparr> meta_title = js ''cat'', meta_description = js ''a cat'', meta_tags = [js ''pet''] \<rparr>"

definition failingServices :: services where
  "failingServices =
     \<lparr> sv_nanoid = js ''1'',
       sv_uploadImage = (\<lambda>buffer contentType. Inl (Error (js ''upload failed''))),
       sv_analyze = (\<lambda>buffer contentType context. Inl (Error (js ''analysis failed''))),
       sv_extractYoutube = (\<lambda>u. Inl (Error (js ''no transcript''))),
       sv_extractWeb = (\<lambda>u. Inl (Error (js ''timeout''))),
       sv_embedMany = (\<lambda>texts maxParallelCalls. Inl (Error (js ''quota''))),
       sv_headingTitle = trim \<rparr>"

definition embeddingFails :: services where
  "embeddingFails =
     failingServices
       \<lparr> sv_uploadImage := (\<lambda>buffer contentType. Inr (js ''blob:1'')),
         sv_analyze := (\<lambda>buffer contentType context. Inr catMetadata) \<rparr>"




definition catImage :: image_input where
  "catImage = \<lparr> in_buffer = [1, 2, 3], in_filename = js ''cat.png'',
                in_contentType = js ''image/png'', in_context = None \<rparr>"

section \<open>Properties of the repository\<close>

lemma dbCall_contents: "dbCall d = (f, d') \<Longrightarrow> contents d' = contents d \<and> clock d' = clock d"
  by (auto simp: dbCall_def split: list.splits)

text \<open>
  C10 (as amended). A call of \<open>updateStatus\<close> that returns, on an id that has a row,
  leaves that row with the new status, with \<open>processingAttempts\<close> one higher, with
  \<open>updatedAt\<close> at the current time, with \<open>completedAt\<close> at the current time when the new
  status is \<open>Completed\<close> and null otherwise, and with \<open>errorMessage\<close> the given message
  when that is a non-empty string and null when none is given or it is empty. Every
  other row is unchanged. This holds for each of the four target statuses.
\<close>

theorem updateStatus_row:
  assumes "updateStatus i s m d = (Inr (), d')"
    and "contents d i = Some c"
  shows "contents d' i =
           Some (c\<lparr> status := s,
                    errorMessage := (case m of None \<Rightarrow> None
                                     | Some t \<Rightarrow> if t = [] then None else Some t),
                    processingAttempts := processingAttempts c + 1,
                    updatedAt := clock d,
                    completedAt := (if s = Completed then Some (clock d) else None) \<rparr>)
         \<and> (\<forall>j. j \<noteq> i \<longrightarrow> contents d' j = contents d j)"
proof -
  obtain f d1 where call: "dbCall d = (f, d1)"
    by (cases "dbCall d")
  from dbCall_contents [OF call] assms(2)
  have same: "contents d1 = contents d" "clock d1 = clock d" "contents d1 i = Some c"
    by simp_all
  from assms(1) call same show ?thesis
    by (cases f) (auto simp: updateStatus_def orNull_def Let_def)
qed

theorem updateStatus_row_witness:
  "contents (snd (updateStatus (js ''url_1'') Completed None failedDb)) (js ''url_1'') =
     Some (failedPage\<lparr> status := Completed, errorMessage := None, processingAttempts := 3,
                        updatedAt := 7, completedAt := Some 7 \<rparr>)"
proof -
  have run: "updateStatus (js ''url_1'') Completed None failedDb =
               (Inr (), snd (updateStatus (js ''url_1'') Completed None failedDb))"
    by (simp add: updateStatus_def dbCall_def failedDb_def emptyDb_def failedPage_def
        orNull_def Let_def)
  have row: "contents failedDb (js ''url_1'') = Some failedPage"
    by (simp add: failedDb_def)
  from updateStatus_row [OF run row] show ?thesis
    by (simp add: failedDb_def emptyDb_def failedPage_def)
qed

text \<open>
  C10 as stated fails for an empty message: \<open>updateStatus\<close> called with the message
  \<^verbatim>\<open>""\<close> stores null, not the provided message.
\<close>

theorem updateStatus_empty_message_counterexample:
  "map_option errorMessage
     (contents (snd (updateStatus (js ''url_1'') Failed (Some (js '''')) failedDb)) (js ''url_1''))
   = Some None"
  by (simp add: updateStatus_def dbCall_def failedDb_def emptyDb_def failedPage_def
      orNull_def Let_def js_def)

text \<open>
  C6. \<open>create\<close> called with status \<open>Completed\<close> and no completion time, as the ingestion
  of an image or a URL calls it, stores a completed row whose \<open>completedAt\<close> is null.
\<close>

theorem create_completed_without_completedAt:
  "map_option (\<lambda>c. (status c, completedAt c))
     (contents (snd (create completedImage emptyDb)) (js ''img_1''))
   = Some (Completed, None)"
  by (simp add: create_def dbCall_def emptyDb_def completedImage_def insertRow_def Let_def)

section \<open>Properties of the chunker\<close>

subsection \<open>White space\<close>

lemma isSpace_space: "isSpace 0x20"
  by (simp add: isSpace_def)

lemma trim_Nil_iff: "trim s = [] \<longleftrightarrow> (\<forall>c\<in>set s. isSpace c)"
proof -
  have "dropWhile isSpace (rev (dropWhile isSpace s)) = [] \<longleftrightarrow> dropWhile isSpace s = []"
  proof (cases "dropWhile isSpace s")
    case Nil
    show ?thesis unfolding Nil by simp
  next
    case (Cons a as)
    then have "\<not> isSpace a"
      using hd_dropWhile [of isSpace s] by force
    with Cons show ?thesis
      by (auto simp: dropWhile_eq_Nil_conv)
  qed
  moreover have "trim s = [] \<longleftrightarrow> dropWhile isSpace (rev (dropWhile isSpace s)) = []"
    by (simp add: trim_def)
  moreover have "dropWhile isSpace s = [] \<longleftrightarrow> (\<forall>c\<in>set s. isSpace c)"
    by (rule dropWhile_eq_Nil_conv)
  ultimately show ?thesis by blast
qed

lemma length_trim_le: "length (trim s) \<le> length s"
proof -
  have "length (trim s) \<le> length (dropWhile isSpace s)"
    unfolding trim_def using length_dropWhile_le [of isSpace "rev (dropWhile isSpace s)"] by simp
  also have "\<dots> \<le> length s"
    by (rule length_dropWhile_le)
  finally show ?thesis .
qed

lemma length_collapse_le: "length (collapse s) \<le> length s"
proof (induction s rule: collapse.induct)
  case 1
  then show ?case by simp
next
  case (2 c cs)
  show ?case
  proof (cases "isSpace c")
    case True
    with 2 have "length (collapse (dropWhile isSpace cs)) \<le> length (dropWhile isSpace cs)"
      by simp
    also have "\<dots> \<le> length cs"
      by (rule length_dropWhile_le)
    finally show ?thesis using True by simp
  next
    case False
    with 2 show ?thesis by simp
  qed
qed

lemma trim_last: "trim s \<noteq> [] \<Longrightarrow> \<not> isSpace (last (trim s))"
proof -
  assume ne: "trim s \<noteq> []"
  let ?ys = "dropWhile isSpace (rev (dropWhile isSpace s))"
  from ne have "?ys \<noteq> []" by (simp add: trim_def)
  then have "\<not> isSpace (hd ?ys)" by (rule hd_dropWhile)
  moreover have "last (trim s) = hd ?ys"
    using \<open>?ys \<noteq> []\<close> by (simp add: trim_def last_rev)
  ultimately show ?thesis by simp
qed

lemma trim_hd: "trim s \<noteq> [] \<Longrightarrow> \<not> isSpace (hd (trim s))"
proof -
  assume ne: "trim s \<noteq> []"
  let ?d = "dropWhile isSpace s"
  let ?ys = "dropWhile isSpace (rev ?d)"
  from ne have ys: "?ys \<noteq> []" by (simp add: trim_def)
  have d: "?d \<noteq> []"
  proof
    assume "?d = []"
    then have "?ys = []" by (simp only: rev.simps dropWhile.simps)
    with ys show False by contradiction
  qed
  have "hd (trim s) = last ?ys"
    using ys by (simp add: trim_def hd_rev)
  also have "last ?ys = last (rev ?d)"
    using ys by (metis append_is_Nil_conv last_appendR takeWhile_dropWhile_id)
  also have "\<dots> = hd ?d"
    using d by (simp add: last_rev)
  finally have "hd (trim s) = hd ?d" .
  moreover have "\<not> isSpace (hd ?d)" using d by (rule hd_dropWhile)
  ultimately show ?thesis by simp
qed

lemma trim_id: "x \<noteq> [] \<Longrightarrow> \<not> isSpace (hd x) \<Longrightarrow> \<not> isSpace (last x) \<Longrightarrow> trim x = x"
proof -
  assume x: "x \<noteq> []" "\<not> isSpace (hd x)" "\<not> isSpace (last x)"
  then have "dropWhile isSpace x = x" by (cases x) auto
  moreover have "dropWhile isSpace (rev x) = rev x"
    using x by (cases "rev x") (auto simp: hd_rev [symmetric])
  ultimately show ?thesis by (simp add: trim_def)
qed

lemma trim_trim: "trim (trim s) = trim s"
proof (cases "trim s = []")
  case True
  show ?thesis unfolding True by (simp add: trim_def)
next
  case False
  then show ?thesis by (intro trim_id trim_hd trim_last)
qed

lemma spaced_Cons: "spaced (c # cs) \<longleftrightarrow> (cs = [] \<or> \<not> (isSpace c \<and> isSpace (hd cs))) \<and> spaced cs"
  by (cases cs) auto

lemma spaced_append:
  "spaced (xs @ ys) \<longleftrightarrow>
     spaced xs \<and> spaced ys \<and> (xs \<noteq> [] \<and> ys \<noteq> [] \<longrightarrow> \<not> (isSpace (last xs) \<and> isSpace (hd ys)))"
proof (induction xs)
  case Nil
  then show ?case by simp
next
  case (Cons x xs)
  show ?case
  proof (cases xs)
    case Nil
    then show ?thesis by (auto simp: spaced_Cons)
  next
    case (Cons z zs)
    with Cons.IH show ?thesis by (auto simp: spaced_Cons)
  qed
qed

lemma collapse_hd: "s = [] \<or> \<not> isSpace (hd s) \<Longrightarrow> collapse s = [] \<or> \<not> isSpace (hd (collapse s))"
  by (cases s) auto

lemma spaced_collapse: "spaced (collapse s)"
proof (induction s rule: collapse.induct)
  case 1
  then show ?case by simp
next
  case (2 c cs)
  show ?case
  proof (cases "isSpace c")
    case True
    let ?r = "dropWhile isSpace cs"
    have "?r = [] \<or> \<not> isSpace (hd ?r)"
      using hd_dropWhile [of isSpace cs] by blast
    then have "collapse ?r = [] \<or> \<not> isSpace (hd (collapse ?r))"
      by (rule collapse_hd)
    with 2 True show ?thesis
      by (auto simp: spaced_Cons)
  next
    case False
    with 2 show ?thesis by (simp add: spaced_Cons)
  qed
qed

lemma trim_sublist: "\<exists>a b. s = a @ trim s @ b"
proof -
  let ?d = "dropWhile isSpace s"
  have "s = takeWhile isSpace s @ ?d" by simp
  moreover have "?d = trim s @ rev (takeWhile isSpace (rev ?d))"
    unfolding trim_def by (metis rev_append rev_rev_ident takeWhile_dropWhile_id)
  ultimately show ?thesis by metis
qed

lemma spaced_trim: "spaced s \<Longrightarrow> spaced (trim s)"
proof -
  assume sp: "spaced s"
  obtain a b where "s = a @ trim s @ b" using trim_sublist by blast
  with sp have "spaced (a @ trim s @ b)" by simp
  then show ?thesis by (simp add: spaced_append)
qed

lemma spaced_nth: "spaced s \<Longrightarrow> Suc i < length s \<Longrightarrow> \<not> (isSpace (s ! i) \<and> isSpace (s ! Suc i))"
proof (induction s arbitrary: i rule: spaced.induct)
  case (1 c d cs)
  then show ?case by (cases i) auto
qed simp_all

lemma normalised_cleaned: "normalised (trim (collapse s))"
  unfolding normalised_def
  using spaced_nth [OF spaced_trim [OF spaced_collapse]] trim_last by blast

lemma collapse_nonspace: "{c \<in> set (collapse s). \<not> isSpace c} = {c \<in> set s. \<not> isSpace c}"
proof (induction s rule: collapse.induct)
  case 1
  then show ?case by simp
next
  case (2 c cs)
  show ?case
  proof (cases "isSpace c")
    case True
    have "{x \<in> set (dropWhile isSpace cs). \<not> isSpace x} = {x \<in> set cs. \<not> isSpace x}"
    proof -
      have "set cs = set (takeWhile isSpace cs) \<union> set (dropWhile isSpace cs)"
        by (metis set_append takeWhile_dropWhile_id)
      moreover have "\<forall>x\<in>set (takeWhile isSpace cs). isSpace x"
        by (auto dest: set_takeWhileD)
      ultimately show ?thesis by auto
    qed
    with 2 True show ?thesis
      using isSpace_space by auto
  next
    case False
    with 2 show ?thesis by auto
  qed
qed

lemma cleaned_Nil_iff: "trim (collapse s) = [] \<longleftrightarrow> trim s = []"
  using collapse_nonspace [of s] by (auto simp: trim_Nil_iff)

subsection \<open>Slices and cut points\<close>

lemma substring_in_range:
  "0 \<le> a \<Longrightarrow> a \<le> b \<Longrightarrow> b \<le> int (length s) \<Longrightarrow>
     substring s a b = take (nat (b - a)) (drop (nat a) s)"
  by (simp add: substring_def Let_def min_def max_def)

lemma length_substring:
  "0 \<le> a \<Longrightarrow> a \<le> b \<Longrightarrow> b \<le> int (length s) \<Longrightarrow> int (length (substring s a b)) = b - a"
  by (simp add: substring_in_range)

lemma substring_member:
  assumes "0 \<le> a" "a \<le> i" "i < b" "b \<le> int (length s)"
  shows "s ! nat i \<in> set (substring s a b)"
proof -
  have sub: "substring s a b = take (nat (b - a)) (drop (nat a) s)"
    using assms by (simp add: substring_in_range)
  have idx: "nat (i - a) < length (take (nat (b - a)) (drop (nat a) s))"
    using assms by simp
  have "take (nat (b - a)) (drop (nat a) s) ! nat (i - a) = s ! (nat a + nat (i - a))"
    using assms by simp
  also have "nat a + nat (i - a) = nat i"
    using assms by simp
  finally have "take (nat (b - a)) (drop (nat a) s) ! nat (i - a) = s ! nat i" .
  with idx sub show ?thesis
    by (metis nth_mem)
qed

lemma substring_whole: "substring s 0 (int (length s)) = s"
  by (simp add: substring_def Let_def)

lemma lastIndexOf_fits:
  assumes "0 \<le> lastIndexOf s p"
  shows "lastIndexOf s p + int (length p) \<le> int (length s)"
proof -
  define cands where "cands = rev [0..<Suc (length s)]"
  define hit where "hit = (\<lambda>i. take (length p) (drop i s) = p)"
  have def: "lastIndexOf s p = (case filter hit cands of [] \<Rightarrow> -1 | i # _ \<Rightarrow> int i)"
    by (simp add: lastIndexOf_def cands_def hit_def)
  show ?thesis
  proof (cases "filter hit cands")
    case Nil
    with assms def show ?thesis by simp
  next
    case (Cons i is')
    then have "i \<in> set (filter hit cands)" by simp
    then have "hit i" by simp
    then have "length (take (length p) (drop i s)) = length p"
      by (simp add: hit_def)
    then have "min (length s - i) (length p) = length p"
      by (simp add: min.commute)
    then have "i + length p \<le> length s \<or> length p = 0"
      by arith
    moreover have "i \<in> set cands"
      using \<open>i \<in> set (filter hit cands)\<close> by simp
    then have "i \<le> length s"
      unfolding cands_def set_rev by (simp del: upt_Suc)
    moreover have "lastIndexOf s p = int i"
      using Cons def by simp
    ultimately show ?thesis by auto
  qed
qed

lemma fold_max_bounds:
  fixes b :: int
  shows "\<forall>x\<in>set (b # bs). lo \<le> x \<and> x \<le> hi \<Longrightarrow> lo \<le> fold max bs b \<and> fold max bs b \<le> hi"
  by (induction bs arbitrary: b) (auto simp: max_def)

lemma cutPoint_bounds:
  assumes "0 \<le> cur" "cur < int (length t)" "2 \<le> m"
  shows "cutPoint t m cur \<le> int (length t)"
    and "cur + 2 \<le> cutPoint t m cur \<or> cutPoint t m cur = int (length t)"
proof -
  define n where "n = int (length t)"
  define e where "e = min (cur + m) n"
  define ss where "ss = max cur (e - 200)"
  define st where "st = substring t ss e"
  define cands where "cands = [lastIndexOf st (js ''. ''), lastIndexOf st (js ''! ''),
                               lastIndexOf st (js ''? ''), lastIndexOf st [0x0A]]"
  define bs where "bs = map (\<lambda>pos. ss + pos + 1) (filter (\<lambda>pos. pos > 0) cands)"
  have e: "cur < e" "e \<le> n" using assms by (auto simp: e_def n_def)
  have ss: "0 \<le> ss" "ss \<le> e" "cur \<le> ss" using assms e by (auto simp: ss_def)
  have len: "int (length st) = e - ss"
    unfolding st_def using ss e by (intro length_substring) (auto simp: n_def)
  have fit: "ss + lastIndexOf st p + 1 \<le> e" if "p \<noteq> []" "0 < lastIndexOf st p" for p
  proof -
    from that have "lastIndexOf st p + int (length p) \<le> int (length st)"
      by (intro lastIndexOf_fits) simp
    moreover have "1 \<le> int (length p)" using \<open>p \<noteq> []\<close> by (cases p) auto
    ultimately show ?thesis using len by linarith
  qed
  have bs: "\<forall>x\<in>set bs. cur + 2 \<le> x \<and> x \<le> e"
  proof
    fix x assume "x \<in> set bs"
    then obtain pos where pos: "pos \<in> set cands" "0 < pos" "x = ss + pos + 1"
      unfolding bs_def by auto
    from pos(1) have "\<exists>p. p \<noteq> [] \<and> pos = lastIndexOf st p"
      unfolding cands_def by (auto simp: js_def)
    then obtain p where "p \<noteq> []" "pos = lastIndexOf st p"
      by blast
    with fit pos have "x \<le> e" by blast
    moreover have "cur + 2 \<le> x" using pos ss by linarith
    ultimately show "cur + 2 \<le> x \<and> x \<le> e" by simp
  qed
  have cp: "cutPoint t m cur =
              (if e < n then (case bs of [] \<Rightarrow> e | b # bs' \<Rightarrow> fold max bs' b) else e)"
    unfolding cutPoint_def Let_def bs_def cands_def st_def ss_def e_def n_def ..
  have both: "cutPoint t m cur \<le> n \<and> (cur + 2 \<le> cutPoint t m cur \<or> cutPoint t m cur = n)"
  proof (cases "e < n")
    case False
    with cp e show ?thesis by auto
  next
    case True
    then have em: "e = cur + m" by (auto simp: e_def)
    show ?thesis
    proof (cases bs)
      case Nil
      with cp True em assms show ?thesis by auto
    next
      case (Cons b bs')
      with bs have "\<forall>x\<in>set (b # bs'). cur + 2 \<le> x \<and> x \<le> e" by simp
      then have "cur + 2 \<le> fold max bs' b \<and> fold max bs' b \<le> e"
        by (rule fold_max_bounds)
      moreover have "cutPoint t m cur = fold max bs' b"
        using cp True Cons by simp
      ultimately show ?thesis using e by auto
    qed
  qed
  from both show "cutPoint t m cur \<le> int (length t)" by (simp add: n_def)
  from both show "cur + 2 \<le> cutPoint t m cur \<or> cutPoint t m cur = int (length t)"
    by (simp add: n_def)
qed

lemma chunk_content_nonempty:
  assumes norm: "normalised t" and "0 \<le> cur" "cur < int (length t)" "2 \<le> m"
  shows "trim (substring t cur (cutPoint t m cur)) \<noteq> []"
proof -
  let ?e = "cutPoint t m cur"
  let ?n = "int (length t)"
  from cutPoint_bounds [OF assms(2-4)] have e: "?e \<le> ?n" "cur + 2 \<le> ?e \<or> ?e = ?n"
    by simp_all
  have "\<exists>i. cur \<le> i \<and> i < ?e \<and> \<not> isSpace (t ! nat i)"
  proof (cases "cur + 2 \<le> ?e")
    case True
    have "Suc (nat cur) < length t" using True e assms by linarith
    with norm have "\<not> (isSpace (t ! nat cur) \<and> isSpace (t ! Suc (nat cur)))"
      by (simp add: normalised_def)
    moreover have "Suc (nat cur) = nat (cur + 1)" using assms by simp
    ultimately have or: "\<not> isSpace (t ! nat cur) \<or> \<not> isSpace (t ! nat (cur + 1))" by auto
    show ?thesis
    proof (cases "isSpace (t ! nat cur)")
      case False
      with True show ?thesis by (intro exI [of _ cur]) simp
    next
      case sp: True
      with or have "\<not> isSpace (t ! nat (cur + 1))" by simp
      with True show ?thesis by (intro exI [of _ "cur + 1"]) simp
    qed
  next
    case False
    with e have en: "?e = ?n" by simp
    have "t \<noteq> []" using assms by auto
    with norm have "\<not> isSpace (last t)" by (simp add: normalised_def)
    moreover have "last t = t ! nat (?n - 1)"
      using \<open>t \<noteq> []\<close> by (simp add: last_conv_nth nat_diff_distrib')
    ultimately have "\<not> isSpace (t ! nat (?n - 1))" by simp
    with en assms show ?thesis
      by (intro exI [of _ "?n - 1"]) auto
  qed
  then obtain i where i: "cur \<le> i" "i < ?e" "\<not> isSpace (t ! nat i)" by blast
  have "t ! nat i \<in> set (substring t cur ?e)"
    using assms i e by (intro substring_member) auto
  with i show ?thesis
    by (auto simp: trim_Nil_iff)
qed

subsection \<open>The loop\<close>

lemma chained_snoc:
  "chained (cs @ [c]) \<longleftrightarrow> chained cs \<and> (cs \<noteq> [] \<longrightarrow> startOffset c \<le> endOffset (last cs))"
proof (induction cs rule: chained.induct)
  case (1 a b cs)
  then show ?case by auto
qed simp_all

lemma chained_nth:
  "chained cs \<Longrightarrow> Suc i < length cs \<Longrightarrow> startOffset (cs ! Suc i) \<le> endOffset (cs ! i)"
proof (induction cs arbitrary: i rule: chained.induct)
  case (1 a b cs)
  then show ?case by (cases i) auto
qed simp_all

lemma loopInv_last:
  assumes "loopInv n cs cur" "cs \<noteq> []"
  shows "0 \<le> startOffset (last cs)" "endOffset (last cs) \<le> n"
    "startOffset (last cs) < cur" "cur \<le> endOffset (last cs)"
proof -
  from assms have "last cs \<in> set cs" by simp
  moreover from assms have
    "\<forall>c\<in>set cs. 0 \<le> startOffset c \<and> startOffset c < endOffset c \<and> endOffset c \<le> n"
    "startOffset (last cs) < cur" "cur \<le> endOffset (last cs)"
    by (auto simp: loopInv_def)
  ultimately show "0 \<le> startOffset (last cs)" "endOffset (last cs) \<le> n"
    "startOffset (last cs) < cur" "cur \<le> endOffset (last cs)"
    by auto
qed

lemma loopInv_nonneg:
  assumes "loopInv n cs cur"
  shows "0 \<le> cur"
proof (cases "cs = []")
  case True
  with assms show ?thesis by (simp add: loopInv_def)
next
  case False
  from loopInv_last(1,3) [OF assms False] show ?thesis by simp
qed

lemma chunkStep_pushes:
  assumes "normalised t" "0 \<le> cur" "cur < int (length t)" "2 \<le> m"
  shows "chunkStep t m ov (cs, cur, idx) =
           (cs @ [\<lparr> content = trim (substring t cur (cutPoint t m cur)), chunkIndex = idx,
                     startOffset = cur, endOffset = cutPoint t m cur, section' = None \<rparr>],
            (if cutPoint t m cur - ov \<le> cur then cutPoint t m cur else cutPoint t m cur - ov),
            idx + 1)"
  using chunk_content_nonempty [OF assms]
  by (simp add: chunkStep_def Let_def)

lemma chunkStep_inv:
  assumes norm: "normalised t" and m: "2 \<le> m" and ov: "0 \<le> ov"
    and inv: "loopInv (int (length t)) cs cur" and lt: "cur < int (length t)"
  obtains cs' cur' idx' where
    "chunkStep t m ov (cs, cur, idx) = (cs', cur', idx')"
    "loopInv (int (length t)) cs' cur'" "cur < cur'"
proof -
  let ?e = "cutPoint t m cur"
  let ?c = "\<lparr> content = trim (substring t cur ?e), chunkIndex = idx,
              startOffset = cur, endOffset = ?e, section' = None \<rparr>"
  let ?cur' = "if ?e - ov \<le> cur then ?e else ?e - ov"
  have nn: "0 \<le> cur" using inv by (rule loopInv_nonneg)
  have step: "chunkStep t m ov (cs, cur, idx) = (cs @ [?c], ?cur', idx + 1)"
    using norm nn lt m by (rule chunkStep_pushes)
  from cutPoint_bounds [OF nn lt m]
  have e: "?e \<le> int (length t)" "cur < ?e" using lt by auto
  have adv: "cur < ?cur'" "?cur' \<le> ?e" using e ov by auto
  have "loopInv (int (length t)) (cs @ [?c]) ?cur'"
  proof (cases "cs = []")
    case True
    with inv have "cur = 0" by (auto simp: loopInv_def)
    with True e adv show ?thesis by (simp add: loopInv_def)
  next
    case False
    with inv have old: "startOffset (hd cs) = 0"
      "\<forall>c\<in>set cs. 0 \<le> startOffset c \<and> startOffset c < endOffset c \<and> endOffset c \<le> int (length t)"
      "chained cs" "cur \<le> endOffset (last cs)"
      by (auto simp: loopInv_def)
    have "chained (cs @ [?c])"
      using old False by (simp add: chained_snoc)
    with old False e adv nn show ?thesis
      by (simp add: loopInv_def)
  qed
  with step adv show ?thesis
    using that by blast
qed

lemma chunkLoop_returns:
  assumes norm: "normalised t" and m: "2 \<le> m" and ov: "0 \<le> ov" and ne: "t \<noteq> []"
  shows "loopInv (int (length t)) cs cur \<Longrightarrow>
         \<exists>res. chunkLoop t m ov (cs, cur, idx) = Some res \<and> res \<noteq> []
           \<and> startOffset (hd res) = 0 \<and> endOffset (last res) = int (length t)
           \<and> (\<forall>c\<in>set res. startOffset c < endOffset c) \<and> chained res"
proof (induction "nat (int (length t) - cur)" arbitrary: cs cur idx rule: less_induct)
  case less
  show ?case
  proof (cases "cur < int (length t)")
    case True
    obtain cs' cur' idx' where step: "chunkStep t m ov (cs, cur, idx) = (cs', cur', idx')"
      and inv': "loopInv (int (length t)) cs' cur'" and adv: "cur < cur'"
      using chunkStep_inv [OF norm m ov less.prems True] by blast
    have "nat (int (length t) - cur') < nat (int (length t) - cur)"
      using True adv by simp
    from less.hyps [OF this inv', of idx']
    obtain res where res: "chunkLoop t m ov (cs', cur', idx') = Some res" "res \<noteq> []"
      "startOffset (hd res) = 0" "endOffset (last res) = int (length t)"
      "\<forall>c\<in>set res. startOffset c < endOffset c" "chained res"
      by blast
    have "chunkLoop t m ov (cs, cur, idx) = chunkLoop t m ov (cs', cur', idx')"
      using True step chunkLoop.simps [of t m ov "(cs, cur, idx)"] by simp
    with res show ?thesis by simp
  next
    case False
    then have fin: "chunkLoop t m ov (cs, cur, idx) = Some cs"
      using chunkLoop.simps [of t m ov "(cs, cur, idx)"] by simp
    from False ne have "cur \<noteq> 0" by auto
    with less.prems have cs: "cs \<noteq> []" "startOffset (hd cs) = 0"
      "\<forall>c\<in>set cs. startOffset c < endOffset c" "chained cs"
      by (auto simp: loopInv_def)
    from loopInv_last(2,4) [OF less.prems cs(1)] False
    have "endOffset (last cs) = int (length t)" by simp
    with fin cs show ?thesis by simp
  qed
qed

lemma chunkText_returns:
  assumes "trim text \<noteq> []" "2 \<le> maxSize opts" "0 \<le> overlap opts"
  shows "\<exists>res. chunkText text opts = Some res \<and> res \<noteq> []
           \<and> startOffset (hd res) = 0 \<and> endOffset (last res) = int (length (trim (collapse text)))
           \<and> (\<forall>c\<in>set res. startOffset c < endOffset c) \<and> chained res"
proof -
  let ?t = "trim (collapse text)"
  have ne: "?t \<noteq> []" using assms(1) by (simp add: cleaned_Nil_iff)
  show ?thesis
  proof (cases "int (length ?t) \<le> maxSize opts")
    case True
    with assms(1) ne show ?thesis
      by (simp add: chunkText_def Let_def)
  next
    case False
    have "loopInv (int (length ?t)) [] 0" by (simp add: loopInv_def)
    from chunkLoop_returns [where idx = 0, OF normalised_cleaned assms(2,3) ne this]
    show ?thesis using False assms(1)
      by (simp add: chunkText_def Let_def)
  qed
qed

lemma chunkStep_slices:
  "\<forall>c\<in>set (fst st). sliceOf t c \<Longrightarrow> \<forall>c\<in>set (fst (chunkStep t m ov st)). sliceOf t c"
  by (cases st) (auto simp: chunkStep_def Let_def sliceOf_def)

lemma chunkLoop_slices:
  assumes "chunkLoop t m ov st = Some res"
  shows "(\<forall>c\<in>set (fst st). sliceOf t c) \<longrightarrow> (\<forall>c\<in>set res. sliceOf t c)"
proof (rule chunkLoop.raw_induct
    [where P = "\<lambda>a b c d y. (\<forall>x\<in>set (fst d). sliceOf a x) \<longrightarrow> (\<forall>x\<in>set y. sliceOf a x)",
      OF _ assms])
  fix f :: "js_string \<Rightarrow> int \<Rightarrow> int \<Rightarrow> text_chunk list \<times> int \<times> int \<Rightarrow> text_chunk list option"
  fix a b c d z
  assume IH: "\<And>a b c d y. f a b c d = Some y \<Longrightarrow>
                (\<forall>x\<in>set (fst d). sliceOf a x) \<longrightarrow> (\<forall>x\<in>set y. sliceOf a x)"
    and eq: "(if fst (snd d) < int (length a) then f a b c (chunkStep a b c d)
              else Some (fst d)) = Some z"
  show "(\<forall>x\<in>set (fst d). sliceOf a x) \<longrightarrow> (\<forall>x\<in>set z. sliceOf a x)"
  proof (cases "fst (snd d) < int (length a)")
    case True
    with eq have "f a b c (chunkStep a b c d) = Some z" by simp
    from IH [OF this] chunkStep_slices [of d a b c] show ?thesis by blast
  next
    case False
    with eq show ?thesis by auto
  qed
qed

lemma chunkText_slices:
  assumes "chunkText text opts = Some res"
  shows "\<forall>c\<in>set res. sliceOf (trim (collapse text)) c"
proof -
  let ?t = "trim (collapse text)"
  consider "trim text = []" | "trim text \<noteq> []" "int (length ?t) \<le> maxSize opts"
    | "trim text \<noteq> []" "\<not> int (length ?t) \<le> maxSize opts"
    by blast
  then show ?thesis
  proof cases
    case 1
    with assms show ?thesis by (simp add: chunkText_def Let_def)
  next
    case 2
    with assms have "res = [\<lparr> content = ?t, chunkIndex = 0, startOffset = 0,
                                endOffset = int (length ?t), section' = None \<rparr>]"
      by (simp add: chunkText_def Let_def)
    then show ?thesis
      by (simp add: sliceOf_def substring_whole trim_trim)
  next
    case 3
    with assms have "chunkLoop ?t (maxSize opts) (overlap opts) ([], 0, 0) = Some res"
      by (simp add: chunkText_def Let_def)
    from chunkLoop_slices [OF this] show ?thesis by simp
  qed
qed

lemma chunkLoop_stuck:
  assumes "chunkStep t m ov st = st" "fst (snd st) < int (length t)"
  shows "chunkLoop t m ov st = None"
proof (rule ccontr)
  assume "chunkLoop t m ov st \<noteq> None"
  then obtain y where y: "chunkLoop t m ov st = Some y" by auto
  have "\<not> (t = t \<and> m = m \<and> ov = ov \<and> st = st)"
  proof (rule chunkLoop.raw_induct
      [where P = "\<lambda>a b c d y. \<not> (a = t \<and> b = m \<and> c = ov \<and> d = st)", OF _ y])
    fix f :: "js_string \<Rightarrow> int \<Rightarrow> int \<Rightarrow> text_chunk list \<times> int \<times> int \<Rightarrow> text_chunk list option"
    fix a b c d z
    assume IH: "\<And>a b c d y. f a b c d = Some y \<Longrightarrow> \<not> (a = t \<and> b = m \<and> c = ov \<and> d = st)"
      and eq: "(if fst (snd d) < int (length a) then f a b c (chunkStep a b c d)
                else Some (fst d)) = Some z"
    show "\<not> (a = t \<and> b = m \<and> c = ov \<and> d = st)"
    proof
      assume "a = t \<and> b = m \<and> c = ov \<and> d = st"
      with eq assms have "f t m ov st = Some z" by simp
      from IH [OF this] show False by simp
    qed
  qed
  then show False by simp
qed

lemma chunkStep_eval:
  assumes "cutPoint t m cur = e" "trim (substring t cur e) = c"
  shows "chunkStep t m ov (cs, cur, idx) =
     (let cs' = (if c \<noteq> [] then cs @ [\<lparr> content = c, chunkIndex = idx, startOffset = cur,
                                            endOffset = e, section' = None \<rparr>] else cs)
      in (cs', (if cs' \<noteq> [] \<and> e - ov \<le> startOffset (last cs') then e else e - ov),
          (if c \<noteq> [] then idx + 1 else idx)))"
  using assms by (simp add: chunkStep_def Let_def)

lemma chunkLoop_unfold:
  "fst (snd st) < int (length t) \<Longrightarrow> chunkLoop t m ov st = chunkLoop t m ov (chunkStep t m ov st)"
  using chunkLoop.simps [of t m ov st] by simp

lemma chunkLoop_exit:
  "\<not> fst (snd st) < int (length t) \<Longrightarrow> chunkLoop t m ov st = Some (fst st)"
  using chunkLoop.simps [of t m ov st] by simp

text \<open>With sizes of at least 2 and a non-negative overlap, the defaults among them, \<open>chunkText\<close> returns.\<close>

lemma chunkText_total:
  assumes "2 \<le> maxSize opts" "0 \<le> overlap opts"
  shows "\<exists>cs. chunkText text opts = Some cs"
proof (cases "trim text = []")
  case True
  then show ?thesis by (simp add: chunkText_def Let_def)
next
  case False
  from chunkText_returns [OF False assms] show ?thesis by blast
qed

subsection \<open>Two runs\<close>

lemma abcd_cleaned: "trim (js ''ab  cd'') \<noteq> []" "trim (collapse (js ''ab  cd'')) = abcd"
  by (simp_all add: trim_def isSpace_def js_def abcd_def)

lemma abcd_cuts: "cutPoint abcd 4 0 = 4" "cutPoint abcd 4 3 = 5" "cutPoint abcd 4 4 = 5"
  by (code_simp, code_simp, code_simp)

lemma abcd_slices:
  "trim (substring abcd 0 4) = js ''ab c''" "trim (substring abcd 3 5) = js ''cd''"
  "trim (substring abcd 4 5) = js ''d''"
  by (code_simp, code_simp, code_simp)

lemma small_run:
  "chunkText (js ''ab  cd'') smallOptions =
     Some [\<lparr> content = js ''ab c'', chunkIndex = 0, startOffset = 0, endOffset = 4, section' = None \<rparr>,
           \<lparr> content = js ''cd'', chunkIndex = 1, startOffset = 3, endOffset = 5, section' = None \<rparr>,
           \<lparr> content = js ''d'', chunkIndex = 2, startOffset = 4, endOffset = 5, section' = None \<rparr>]"
proof -
  let ?c0 = "\<lparr> content = js ''ab c'', chunkIndex = 0, startOffset = 0, endOffset = 4, section' = None \<rparr>"
  let ?c1 = "\<lparr> content = js ''cd'', chunkIndex = 1, startOffset = 3, endOffset = 5, section' = None \<rparr>"
  let ?c2 = "\<lparr> content = js ''d'', chunkIndex = 2, startOffset = 4, endOffset = 5, section' = None \<rparr>"
  have len: "int (length abcd) = 5" by (simp add: abcd_def)
  have ne: "js ''ab c'' \<noteq> []" "js ''cd'' \<noteq> []" "js ''d'' \<noteq> []" by (simp_all add: js_def)
  have s0: "chunkStep abcd 4 1 ([], 0, 0) = ([?c0], 3, 1)"
    by (simp add: chunkStep_eval [OF abcd_cuts(1) abcd_slices(1)] ne)
  have s1: "chunkStep abcd 4 1 ([?c0], 3, 1) = ([?c0, ?c1], 4, 2)"
    by (simp add: chunkStep_eval [OF abcd_cuts(2) abcd_slices(2)] ne)
  have s2: "chunkStep abcd 4 1 ([?c0, ?c1], 4, 2) = ([?c0, ?c1, ?c2], 5, 3)"
    by (simp add: chunkStep_eval [OF abcd_cuts(3) abcd_slices(3)] ne)
  have "chunkText (js ''ab  cd'') smallOptions = chunkLoop abcd 4 1 ([], 0, 0)"
    using abcd_cleaned by (simp add: chunkText_def maxSize_def overlap_def smallOptions_def len)
  also have "\<dots> = chunkLoop abcd 4 1 ([?c0], 3, 1)"
    by (simp add: chunkLoop_unfold [of "([], 0, 0)" abcd] len s0)
  also have "\<dots> = chunkLoop abcd 4 1 ([?c0, ?c1], 4, 2)"
    by (simp add: chunkLoop_unfold [of "([?c0], 3, 1)" abcd] len s1)
  also have "\<dots> = chunkLoop abcd 4 1 ([?c0, ?c1, ?c2], 5, 3)"
    by (simp add: chunkLoop_unfold [of "([?c0, ?c1], 4, 2)" abcd] len s2)
  also have "\<dots> = Some [?c0, ?c1, ?c2]"
    by (simp add: chunkLoop_exit len)
  finally show ?thesis .
qed

lemma a_b_cleaned: "trim (js ''a b'') \<noteq> []" "trim (collapse (js ''a b'')) = a_b"
  by (simp_all add: trim_def isSpace_def js_def a_b_def)

lemma a_b_cuts: "cutPoint a_b 1 0 = 1" "cutPoint a_b 1 1 = 2"
  by (code_simp, code_simp)

lemma a_b_slices: "trim (substring a_b 0 1) = js ''a''" "trim (substring a_b 1 2) = []"
  by (code_simp, code_simp)

subsection \<open>The claims about the chunker\<close>

text \<open>
  C2 (as amended). For every text that is not empty or white space only and whose
  length is at most the maximal chunk size, \<open>chunkText\<close> returns exactly one chunk, with
  index 0, start offset 0 and end offset the length of its content; the content is the
  input with every run of white space replaced by one space and then trimmed.
\<close>

theorem chunkText_single_chunk:
  assumes "trim text \<noteq> []" "int (length text) \<le> maxSize opts"
  shows "chunkText text opts =
           Some [\<lparr> content = trim (collapse text), chunkIndex = 0, startOffset = 0,
                   endOffset = int (length (trim (collapse text))), section' = None \<rparr>]"
proof -
  have "length (trim (collapse text)) \<le> length text"
    using length_trim_le [of "collapse text"] length_collapse_le [of "text"] by simp
  with assms show ?thesis
    by (simp add: chunkText_def Let_def)
qed

theorem chunkText_single_chunk_witness:
  "chunkText (js '' a  b '') defaultOptions =
     Some [\<lparr> content = js ''a b'', chunkIndex = 0, startOffset = 0, endOffset = 3,
             section' = None \<rparr>]"
proof -
  have t: "trim (js '' a  b '') \<noteq> []"
    by (simp add: trim_def isSpace_def js_def)
  have m: "int (length (js '' a  b '')) \<le> maxSize defaultOptions"
    by (simp add: maxSize_def defaultOptions_def js_def)
  have c: "trim (collapse (js '' a  b '')) = js ''a b''"
    by (simp add: trim_def isSpace_def js_def)
  from chunkText_single_chunk [OF t m] show ?thesis
    by (simp add: c) (simp add: js_def)
qed

text \<open>
  C2 as stated fails on a text with a run of white space inside: the chunk of
  \<^verbatim>\<open>"a  b"\<close> is \<^verbatim>\<open>"a b"\<close>, which is not the trimmed input.
\<close>

theorem chunkText_collapses_counterexample:
  "chunkText (js ''a  b'') defaultOptions =
     Some [\<lparr> content = js ''a b'', chunkIndex = 0, startOffset = 0, endOffset = 3,
             section' = None \<rparr>]
   \<and> trim (js ''a  b'') \<noteq> js ''a b''"
proof -
  have "trim (js ''a  b'') \<noteq> []" "trim (collapse (js ''a  b'')) = js ''a b''"
    "trim (js ''a  b'') \<noteq> js ''a b''"
    by (simp_all add: trim_def isSpace_def js_def)
  then show ?thesis
    by (simp add: chunkText_def maxSize_def defaultOptions_def Let_def) (simp add: js_def)
qed

text \<open>
  C3 (as amended). For every text that is not empty or white space only, a maximal
  chunk size of at least 2 and a non-negative overlap, \<open>chunkText\<close> returns a non-empty
  list of chunks whose offsets index into the normalised text (white space collapsed,
  then trimmed): each content is the trimmed slice between its offsets, every chunk has
  \<open>startOffset < endOffset\<close>, the first starts at 0, each chunk starts no later than the
  one before it ends, and the last ends at the length of the normalised text.
\<close>

theorem chunkText_covers:
  assumes "trim text \<noteq> []" "2 \<le> maxSize opts" "0 \<le> overlap opts"
  shows "\<exists>cs. chunkText text opts = Some cs \<and> cs \<noteq> []
           \<and> startOffset (hd cs) = 0
           \<and> endOffset (last cs) = int (length (trim (collapse text)))
           \<and> (\<forall>c\<in>set cs. startOffset c < endOffset c
                \<and> content c = trim (substring (trim (collapse text)) (startOffset c) (endOffset c)))
           \<and> (\<forall>i. Suc i < length cs \<longrightarrow> startOffset (cs ! Suc i) \<le> endOffset (cs ! i))"
proof -
  from chunkText_returns [OF assms] obtain cs where cs:
    "chunkText text opts = Some cs" "cs \<noteq> []" "startOffset (hd cs) = 0"
    "endOffset (last cs) = int (length (trim (collapse text)))"
    "\<forall>c\<in>set cs. startOffset c < endOffset c" "chained cs"
    by blast
  from chunkText_slices [OF cs(1)]
  have "\<forall>c\<in>set cs. content c = trim (substring (trim (collapse text)) (startOffset c) (endOffset c))"
    by (simp add: sliceOf_def)
  moreover have "\<forall>i. Suc i < length cs \<longrightarrow> startOffset (cs ! Suc i) \<le> endOffset (cs ! i)"
    using chained_nth [OF cs(6)] by blast
  ultimately show ?thesis using cs by blast
qed

theorem chunkText_covers_witness:
  "\<exists>cs. chunkText (js ''ab  cd'') smallOptions = Some cs \<and> cs \<noteq> []
      \<and> startOffset (hd cs) = 0
      \<and> endOffset (last cs) = 5
      \<and> (\<forall>c\<in>set cs. startOffset c < endOffset c
           \<and> content c = trim (substring abcd (startOffset c) (endOffset c)))
      \<and> (\<forall>i. Suc i < length cs \<longrightarrow> startOffset (cs ! Suc i) \<le> endOffset (cs ! i))"
proof -
  have m: "2 \<le> maxSize smallOptions" and v: "0 \<le> overlap smallOptions"
    by (simp_all add: maxSize_def overlap_def smallOptions_def)
  from chunkText_covers [OF abcd_cleaned(1) m v] show ?thesis
    by (simp add: abcd_cleaned(2)) (simp add: abcd_def)
qed

text \<open>
  C3 as stated fails where the input has white space to collapse: the offsets index
  into the normalised text, so on the six code units of \<^verbatim>\<open>"ab  cd"\<close> the last chunk
  ends at 5, not at the input's length.
\<close>

theorem chunkText_offsets_counterexample:
  "map_option (map (\<lambda>c. (startOffset c, endOffset c))) (chunkText (js ''ab  cd'') smallOptions)
     = Some [(0, 4), (3, 5), (4, 5)]
   \<and> int (length (js ''ab  cd'')) = 6"
  by (simp add: small_run) (simp add: js_def)

text \<open>
  C7. With a maximal chunk size of 1 and an overlap of 1, \<open>chunkText\<close> never returns on
  \<^verbatim>\<open>"a b"\<close>: the turn at the space pushes no chunk, the guard compares the next
  position with the start of the chunk pushed a turn earlier, and the position stays
  at 1.
\<close>

theorem chunkText_diverges: "chunkText (js ''a b'') tinyOptions = None"
proof -
  let ?c0 = "\<lparr> content = js ''a'', chunkIndex = 0, startOffset = 0, endOffset = 1, section' = None \<rparr>"
  have len: "int (length a_b) = 3" by (simp add: a_b_def)
  have ne: "js ''a'' \<noteq> []" by (simp add: js_def)
  have s0: "chunkStep a_b 1 1 ([], 0, 0) = ([?c0], 1, 1)"
    by (simp add: chunkStep_eval [OF a_b_cuts(1) a_b_slices(1)] ne)
  have s1: "chunkStep a_b 1 1 ([?c0], 1, 1) = ([?c0], 1, 1)"
    by (simp add: chunkStep_eval [OF a_b_cuts(2) a_b_slices(2)])
  have "chunkText (js ''a b'') tinyOptions = chunkLoop a_b 1 1 ([], 0, 0)"
    using a_b_cleaned by (simp add: chunkText_def maxSize_def overlap_def tinyOptions_def len)
  also have "\<dots> = chunkLoop a_b 1 1 ([?c0], 1, 1)"
    by (simp add: chunkLoop_unfold [of "([], 0, 0)" a_b] len s0)
  also have "\<dots> = None"
    by (rule chunkLoop_stuck [OF s1]) (simp add: len)
  finally show ?thesis .
qed
section \<open>Properties of the section detector\<close>

lemma preamble_lines: "splitLines preambleDoc = [js ''x'', js ''# A'']"
  by (simp add: preambleDoc_def js_def)

lemma preamble_headings: "isHeading (js ''x'') = False" "isHeading (js ''# A'') = True"
  by (code_simp, code_simp)

text \<open>
  C4. On a document whose first line is not a heading the sections do not start at
  offset 0: the text before the first heading belongs to no section. Here the only
  section is that of the heading on the second line, from offset 2 to the end.
\<close>

theorem detectSections_drops_preamble:
  "detectSections headingTitle preambleDoc =
     [\<lparr> sec_title = headingTitle (js ''# A''), sec_content = js ''# A'',
        sec_startOffset = 2, sec_endOffset = 5 \<rparr>]"
proof -
  have len: "int (length preambleDoc) = 5" "int (length (js ''x'')) = 1"
    by (simp_all add: preambleDoc_def js_def)
  have slice: "trim (substring preambleDoc 2 5) = js ''# A''"
    by code_simp
  have run: "fold (sectionStep headingTitle preambleDoc) (splitLines preambleDoc) ([], None, 0)
               = ([], Some \<lparr> sec_title = headingTitle (js ''# A''), sec_content = [],
                               sec_startOffset = 2, sec_endOffset = 5 \<rparr>, 6)"
    by (simp add: preamble_lines sectionStep_def preamble_headings len Let_def) (simp add: js_def)
  show ?thesis
    by (simp add: detectSections_def run len slice Let_def) (simp add: js_def)
qed

section \<open>Properties of the embedding orchestrator\<close>

lemma slice_window:
  assumes "0 \<le> start" "0 < b"
  shows "take (nat start) xs @ slice xs start (min (start + b) (int (length xs)))
           = take (nat (start + b)) xs"
proof (cases "start \<le> int (length xs)")
  case False
  with assms show ?thesis by (simp add: slice_def Let_def)
next
  case True
  let ?e = "min (start + b) (int (length xs))"
  have s: "slice xs start ?e = take (nat (?e - start)) (drop (nat start) xs)"
    using assms True by (simp add: slice_def Let_def min_def)
  have "take (nat start) xs @ take (nat (?e - start)) (drop (nat start) xs) = take (nat ?e) xs"
  proof -
    have "start \<le> ?e" using assms True by simp
    with assms have "nat ?e = nat start + nat (?e - start)"
      by (simp add: nat_add_distrib [symmetric])
    then show ?thesis by (simp only: take_add)
  qed
  moreover have "take (nat ?e) xs = take (nat (start + b)) xs"
    by (simp add: min_def)
  ultimately show ?thesis using s by simp
qed

lemma batchLoop_finite:
  assumes cap: "\<forall>xs p. embedMany xs p = Inr (map f xs)" and b: "0 < b"
  shows "0 \<le> i \<Longrightarrow>
         \<exists>reports'. batchLoop embedMany texts b (Finite k)
                       (i, map f (take (nat (i * b)) texts), reports)
                     = Some (Inr (map f (take (nat (max i k * b)) texts), reports'))"
proof (induction "nat (k - i)" arbitrary: i reports rule: less_induct)
  case less
  show ?case
  proof (cases "i < k")
    case False
    then have "max i k = i" by simp
    with False show ?thesis
      using batchLoop.simps [of embedMany texts b "Finite k"] by simp
  next
    case True
    let ?start = "i * b"
    let ?end = "min (?start + b) (int (length texts))"
    let ?acc = "map f (take (nat ?start) texts)"
    have start: "0 \<le> ?start" using less.prems b by simp
    have gen: "generateEmbeddings embedMany (slice texts ?start ?end) (Some 5)
                 = Inr (map f (slice texts ?start ?end))"
      using cap by (simp add: generateEmbeddings_def)
    have acc: "?acc @ map f (slice texts ?start ?end) = map f (take (nat ((i + 1) * b)) texts)"
    proof -
      have "?acc @ map f (slice texts ?start ?end)
              = map f (take (nat ?start) texts @ slice texts ?start ?end)"
        by simp
      also have "\<dots> = map f (take (nat (?start + b)) texts)"
        by (simp only: slice_window [OF start b])
      finally show ?thesis by (simp add: algebra_simps)
    qed
    have step: "batchLoop embedMany texts b (Finite k) (i, ?acc, reports)
                  = batchLoop embedMany texts b (Finite k)
                      (i + 1, map f (take (nat ((i + 1) * b)) texts),
                       reports @ [(?end, int (length texts))])"
      using True batchLoop.simps [of embedMany texts b "Finite k" "(i, ?acc, reports)"]
      by (simp add: gen acc Let_def)
    have "nat (k - (i + 1)) < nat (k - i)" using True by simp
    from less.hyps [OF this, of "reports @ [(?end, int (length texts))]"] less.prems
    obtain reports' where
      "batchLoop embedMany texts b (Finite k)
         (i + 1, map f (take (nat ((i + 1) * b)) texts), reports @ [(?end, int (length texts))])
       = Some (Inr (map f (take (nat (max (i + 1) k * b)) texts), reports'))"
      by auto
    moreover have "max (i + 1) k = max i k" using True by simp
    ultimately show ?thesis using step by simp
  qed
qed

lemma batchCount_covers:
  assumes "0 < b"
  shows "batchCount n b = Finite (- ((- int n) div b))"
    and "int n \<le> max 0 (- ((- int n) div b)) * b"
proof -
  show "batchCount n b = Finite (- ((- int n) div b))"
    using assms by (simp add: batchCount_def)
  have "(- int n) div b * b \<le> - int n"
    using assms by (metis div_mult_mod_eq le_add_same_cancel1 pos_mod_sign)
  then have "int n \<le> - ((- int n) div b) * b" by simp
  moreover have "(- int n) div b \<le> 0"
    using assms by (intro div_nonpos_pos_le0) simp_all
  then have "0 \<le> - ((- int n) div b)" by simp
  ultimately show "int n \<le> max 0 (- ((- int n) div b)) * b" by simp
qed

text \<open>
  C8. Given a capability that embeds every batch text by text, in order
  and for every number of parallel calls, \<open>batchGenerateEmbeddings\<close> with a positive
  batch size returns the vectors of a single order-preserving map over the whole list:
  one vector for each text, the i-th vector for the i-th text, whatever the batch size.
\<close>

theorem batchGenerateEmbeddings_order:
  assumes "\<forall>xs p. embedMany xs p = Inr (map f xs)" and "0 < batchSizeOf opts"
  shows "\<exists>reports. batchGenerateEmbeddings embedMany texts opts = Some (Inr (map f texts, reports))"
proof -
  let ?b = "batchSizeOf opts"
  let ?k = "- ((- int (length texts)) div ?b)"
  from batchLoop_finite [OF assms, of 0 texts ?k "[]"]
  obtain reports where run:
    "batchLoop embedMany texts ?b (Finite ?k) (0, [], [])
       = Some (Inr (map f (take (nat (max 0 ?k * ?b)) texts), reports))"
    by auto
  from batchCount_covers [OF assms(2), of "length texts"]
  have count: "batchCount (length texts) ?b = Finite ?k"
    and all: "int (length texts) \<le> max 0 ?k * ?b"
    by simp_all
  from all have "take (nat (max 0 ?k * ?b)) texts = texts" by simp
  with run count show ?thesis
    by (simp add: batchGenerateEmbeddings_def Let_def)
qed

theorem batchGenerateEmbeddings_order_witness:
  "\<exists>reports. batchGenerateEmbeddings lengthEmbedMany [js ''a'', js ''bc'', js ''def'']
                \<lparr> opt_batchSize = Some 2 \<rparr>
              = Some (Inr ([[1], [2], [3]], reports))"
proof -
  have cap: "\<forall>xs p. lengthEmbedMany xs p = Inr (map lengthVector xs)"
    by (simp add: lengthEmbedMany_def)
  have size: "0 < batchSizeOf \<lparr> opt_batchSize = Some 2 \<rparr>"
    by (simp add: batchSizeOf_def)
  from batchGenerateEmbeddings_order [OF cap size, of "[js ''a'', js ''bc'', js ''def'']"]
  show ?thesis by (simp add: lengthVector_def js_def)
qed

text \<open>
  The batch size is a count of texts, hence positive, and the theorem needs it so:
  the function does not check the number it is given, and with \<open>-1\<close> the number of
  batches is negative and the loop body never runs.
\<close>

lemma batchGenerateEmbeddings_negative_size:
  "batchGenerateEmbeddings lengthEmbedMany [js ''a''] \<lparr> opt_batchSize = Some (- 1) \<rparr>
     = Some (Inr ([], []))"
  using batchLoop.simps [of lengthEmbedMany "[js ''a'']" "- 1" "Finite (- 1)" "(0, [], [])"]
  by (simp add: batchGenerateEmbeddings_def batchSizeOf_def batchCount_def)

section \<open>Properties of the similarity ranker\<close>











lemma keyed_empty: "keyed emptyDb"
  by (simp add: keyed_def emptyDb_def)

lemma keyed_create: "keyed d \<Longrightarrow> keyed (snd (create data d))"
  by (auto simp: keyed_def create_def dbCall_def insertRow_def Let_def
      split: list.splits option.splits)

lemma keyed_update: "keyed d \<Longrightarrow> keyed (snd (update i data d))"
  by (auto simp: keyed_def update_def dbCall_def applyPatch_def Let_def
      split: list.splits option.splits)

lemma keyed_updateStatus: "keyed d \<Longrightarrow> keyed (snd (updateStatus i s m d))"
  by (auto simp: keyed_def updateStatus_def dbCall_def Let_def
      split: list.splits option.splits)




section \<open>Properties of the ingestion service\<close>

subsection \<open>The repository without pending faults\<close>

lemma dbCall_ok: "faults d = [] \<Longrightarrow> dbCall d = (None, d)"
  by (simp add: dbCall_def)

lemma findById_ok: "faults d = [] \<Longrightarrow> findById i d = (Inr (contents d i), d)"
  by (simp add: findById_def dbCall_ok)

lemma updateStatus_ok:
  "faults d = [] \<Longrightarrow> contents d i = Some c \<Longrightarrow>
     updateStatus i s m d =
       (Inr (), d\<lparr>contents := (contents d)(i \<mapsto>
                  c\<lparr> status := s, errorMessage := orNull m,
                     processingAttempts := processingAttempts c + 1, updatedAt := clock d,
                     completedAt := (if s = Completed then Some (clock d) else None) \<rparr>)\<rparr>)"
  by (simp add: updateStatus_def dbCall_ok Let_def)

lemma create_ok:
  "faults d = [] \<Longrightarrow> contents d (new_id data) = None \<Longrightarrow>
     create data d =
       (Inr (insertRow data (clock d)),
        d\<lparr>contents := (contents d)(new_id data \<mapsto> insertRow data (clock d))\<rparr>)"
  by (simp add: create_def dbCall_ok Let_def)

lemma applyPatch_attempts:
  "set_processingAttempts data = None \<Longrightarrow>
     processingAttempts (applyPatch data now c) = processingAttempts c"
  by (simp add: applyPatch_def)

lemma update_frame:
  assumes "update i data d = (r, d')" "set_processingAttempts data = None"
    "contents d i = Some c"
  shows "\<exists>c'. contents d' i = Some c' \<and> processingAttempts c' = processingAttempts c"
    and "faults d = [] \<longrightarrow> faults d' = []"
proof -
  obtain f d1 where call: "dbCall d = (f, d1)" by (cases "dbCall d")
  from dbCall_contents [OF call] assms(3)
  have same: "contents d1 i = Some c" by simp
  have fl: "faults d = [] \<longrightarrow> faults d1 = [] \<and> f = None"
    using call by (auto simp: dbCall_def)
  show "\<exists>c'. contents d' i = Some c' \<and> processingAttempts c' = processingAttempts c"
  proof (cases f)
    case None
    with assms(1) call same have "contents d' i = Some (applyPatch data (clock d1) c)"
      by (auto simp: update_def Let_def)
    with applyPatch_attempts [OF assms(2)] show ?thesis by simp
  next
    case (Some e)
    with assms(1) call have "d' = d1" by (simp add: update_def)
    with same show ?thesis by simp
  qed
  show "faults d = [] \<longrightarrow> faults d' = []"
  proof (cases f)
    case None
    with assms(1) call same have "faults d' = faults d1"
      by (auto simp: update_def Let_def)
    with fl show ?thesis by simp
  next
    case (Some e)
    with fl show ?thesis by auto
  qed
qed

lemma createChunks_frame:
  assumes "createChunks i cs d = (r, d')"
  shows "contents d' = contents d" and "faults d = [] \<longrightarrow> faults d' = []"
  using assms
  by (auto simp: createChunks_def dbCall_def Let_def split: list.splits option.splits if_splits)

lemma deleteChunks_frame:
  assumes "deleteChunks i d = (r, d')"
  shows "contents d' = contents d" and "faults d = [] \<longrightarrow> faults d' = []"
  using assms
  by (auto simp: deleteChunks_def dbCall_def split: list.splits option.splits)

subsection \<open>The chunking stage always returns\<close>





lemma storeImageChunks_total: "\<exists>r d'. storeImageChunks sv i t d = Some (r, d')"
proof -
  let ?sizes = "\<lparr> opt_maxChunkSize = None, opt_overlapSize = None \<rparr>"
  have "2 \<le> maxSize ?sizes" "0 \<le> overlap ?sizes"
    by (simp_all add: maxSize_def overlap_def)
  from chunkText_total [OF this] obtain cs where "chunkText t ?sizes = Some cs" by blast
  then show ?thesis
    by (auto simp: storeImageChunks_def split: sum.splits prod.splits)
qed

lemma storeChunks_frame:
  assumes "storeChunks sv i t d = Some (r, d')"
  shows "contents d' = contents d" and "faults d = [] \<longrightarrow> faults d' = []"
proof -
  from assms have "d' = d \<or> (\<exists>cs r'. createChunks i cs d = (r', d'))"
    by (auto simp: storeChunks_def split: option.splits sum.splits prod.splits)
  with createChunks_frame show "contents d' = contents d" and "faults d = [] \<longrightarrow> faults d' = []"
    by blast+
qed

subsection \<open>The \<^verbatim>\<open>try\<close> block of a retry\<close>


lemma retryTry_frame:
  assumes run: "retryTry sv i u d = Some (r, d')" and row: "contents d i = Some c"
  shows "\<exists>c'. contents d' i = Some c' \<and> processingAttempts c' = processingAttempts c"
    and "faults d = [] \<longrightarrow> faults d' = []"
proof -
  have both: "(\<exists>c'. contents d' i = Some c' \<and> processingAttempts c' = processingAttempts c)
              \<and> (faults d = [] \<longrightarrow> faults d' = [])"
  proof (cases "extractContent sv u")
    case (Inl e)
    with run row show ?thesis by (simp add: retryTry_def)
  next
    case (Inr ex)
    obtain r1 d1 where u: "update i (retryPatch ex) d = (r1, d1)"
      by (cases "update i (retryPatch ex) d")
    have np: "set_processingAttempts (retryPatch ex) = None" by (simp add: retryPatch_def)
    from update_frame [OF u np row] obtain c1 where
      c1: "contents d1 i = Some c1" "processingAttempts c1 = processingAttempts c"
      and f1: "faults d = [] \<longrightarrow> faults d1 = []"
      by blast
    show ?thesis
    proof (cases r1)
      case (Inl e)
      with run Inr u c1 f1 show ?thesis by (simp add: retryTry_def)
    next
      case upd: (Inr x1)
      obtain r2 d2 where del: "deleteChunks i d1 = (r2, d2)" by (cases "deleteChunks i d1")
      from deleteChunks_frame [OF del]
      have d2: "contents d2 = contents d1" "faults d1 = [] \<longrightarrow> faults d2 = []" by simp_all
      show ?thesis
      proof (cases r2)
        case (Inl e)
        with run Inr u upd del c1 f1 d2 show ?thesis by (simp add: retryTry_def)
      next
        case deleted: (Inr x2)
        with run Inr u upd del have
          "storeChunks sv i (ex_title ex @ [0x0A] @ ex_description ex @ [0x0A] @ ex_content ex) d2
             = Some (r, d')"
          by (simp add: retryTry_def)
        from storeChunks_frame [OF this]
        have "contents d' = contents d2" "faults d2 = [] \<longrightarrow> faults d' = []" by simp_all
        with c1 f1 d2 show ?thesis by simp
      qed
    qed
  qed
  from both show "\<exists>c'. contents d' i = Some c' \<and> processingAttempts c' = processingAttempts c"
    by simp
  from both show "faults d = [] \<longrightarrow> faults d' = []" by simp
qed






subsection \<open>What a retry does\<close>





subsection \<open>Retrying\<close>






subsection \<open>Recording a failure\<close>

lemma processImageTry_total: "\<exists>r d'. processImageTry sv input i d = Some (r, d')"
proof (cases "sv_uploadImage sv (in_buffer input) (in_contentType input)")
  case (Inl e)
  then show ?thesis by (simp add: processImageTry_def)
next
  case up: (Inr blobUrl)
  show ?thesis
  proof (cases "sv_analyze sv (in_buffer input) (in_contentType input) (in_context input)")
    case (Inl e)
    with up show ?thesis by (simp add: processImageTry_def)
  next
    case (Inr metadata)
    let ?title = "if meta_title metadata = [] then in_filename input else meta_title metadata"
    let ?description = "if meta_description metadata = [] then js ''Image uploaded''
                        else meta_description metadata"
    let ?row = "rowOf i Image None ?title ?description (Some (take 500 ?description))
                  (Some blobUrl) Completed None"
    obtain r1 d1 where made: "create ?row d = (r1, d1)" by (cases "create ?row d")
    show ?thesis
    proof (cases r1)
      case (Inl e)
      with up Inr made show ?thesis by (simp add: processImageTry_def Let_def)
    next
      case row: (Inr c)
      from storeImageChunks_total obtain r2 d2 where
        "storeImageChunks sv i (?title @ [0x0A] @ ?description @ [0x0A]
                                  @ join (meta_tags metadata) (js '' '')) d1 = Some (r2, d2)"
        by blast
      with up Inr made row show ?thesis
        by (cases r2) (simp_all add: processImageTry_def Let_def)
    qed
  qed
qed

lemma rowOf_failed:
  "recordOf (d\<lparr>contents := (contents d)(i \<mapsto> insertRow (rowOf i ty u t desc p img Failed (Some m)) now)\<rparr>) i
     = Some (Failed, Some m, 0)"
  by (simp add: recordOf_def insertRow_def rowOf_def)

text \<open>
  What the failure paths do record. \<open>processImage\<close> always returns and never throws.
  When its \<^verbatim>\<open>try\<close> block throws before a row with the new id exists, and the
  database takes the insert, the item is stored as failed with the error message and an
  attempt counter of 0, and the output reports the failure. \<open>processUrl\<close> throws the
  error built from the failure of its \<^verbatim>\<open>try\<close> block, whatever becomes of the insert,
  and stores the same failed row under the same conditions. When the \<^verbatim>\<open>try\<close> block
  of a retry throws and the database answers, the item is stored as failed with the
  message (null when it is empty) and its attempt counter is two above what it was.
\<close>

lemma failure_is_recorded:
  "(\<exists>out d'. processImage sv input d = Some (Inr out, d'))
   \<and> (\<forall>e d1. processImageTry sv input (js ''img_'' @ sv_nanoid sv) d = Some (Inl e, d1)
              \<and> contents d1 (js ''img_'' @ sv_nanoid sv) = None \<and> faults d1 = [] \<longrightarrow>
         (\<exists>d2. processImage sv input d
                  = Some (Inr \<lparr> out_success = False, out_contentId = js ''img_'' @ sv_nanoid sv,
                                out_title = None, out_error = Some (getErrorMessage e) \<rparr>, d2)
              \<and> recordOf d2 (js ''img_'' @ sv_nanoid sv)
                  = Some (Failed, Some (getErrorMessage e), 0)))
   \<and> (\<forall>e d1. processUrlTry sv page (js ''url_'' @ sv_nanoid sv) d = Some (Inl e, d1) \<longrightarrow>
         (\<exists>d2. processUrl sv page d
                  = Some (Inl (Error (js ''Failed to process URL: '' @ getErrorMessage e)), d2)
              \<and> (contents d1 (js ''url_'' @ sv_nanoid sv) = None \<and> faults d1 = [] \<longrightarrow>
                   recordOf d2 (js ''url_'' @ sv_nanoid sv)
                     = Some (Failed, Some (getErrorMessage e), 0))))
   \<and> (\<forall>c u e d2. faults d = [] \<and> contents d i = Some c \<and> status c = Failed
                \<and> type' c \<noteq> Image \<and> url c = Some u \<and> u \<noteq> []
                \<and> retryTry sv i u (snd (updateStatus i Processing None d)) = Some (Inl e, d2) \<longrightarrow>
         (\<exists>d3. retryFailedContent sv i d
                  = Some (Inl (Error (js ''Failed to retry content: '' @ getErrorMessage e)), d3)
              \<and> recordOf d3 i
                  = Some (Failed, orNull (Some (getErrorMessage e)), processingAttempts c + 2)))"
proof -
  let ?img = "js ''img_'' @ sv_nanoid sv"
  let ?url = "js ''url_'' @ sv_nanoid sv"
  have returns: "\<exists>out d'. processImage sv input d = Some (Inr out, d')"
  proof -
    obtain r d1 where "processImageTry sv input ?img d = Some (r, d1)"
      using processImageTry_total by blast
    then show ?thesis
      by (cases r) (simp_all add: processImage_def Let_def)
  qed
  have image: "\<exists>d2. processImage sv input d
                  = Some (Inr \<lparr> out_success = False, out_contentId = ?img,
                                out_title = None, out_error = Some (getErrorMessage e) \<rparr>, d2)
              \<and> recordOf d2 ?img = Some (Failed, Some (getErrorMessage e), 0)"
    if "processImageTry sv input ?img d = Some (Inl e, d1)" "contents d1 ?img = None"
      "faults d1 = []" for e d1
  proof -
    let ?row = "rowOf ?img Image None (in_filename input) (js ''Failed to process'') None None
                  Failed (Some (getErrorMessage e))"
    have "new_id ?row = ?img" by (simp add: rowOf_def)
    with create_ok [OF that(3), of ?row] that(2)
    have "snd (create ?row d1) = d1\<lparr>contents := (contents d1)(?img \<mapsto> insertRow ?row (clock d1))\<rparr>"
      by simp
    with that(1) rowOf_failed show ?thesis
      by (simp add: processImage_def Let_def)
  qed
  have page: "\<exists>d2. processUrl sv page d
                  = Some (Inl (Error (js ''Failed to process URL: '' @ getErrorMessage e)), d2)
              \<and> (contents d1 ?url = None \<and> faults d1 = [] \<longrightarrow>
                   recordOf d2 ?url = Some (Failed, Some (getErrorMessage e), 0))"
    if "processUrlTry sv page ?url d = Some (Inl e, d1)" for e d1
  proof -
    let ?row = "rowOf ?url (urlType (in_url page)) (Some (in_url page)) (js ''Failed to process'')
                  (js ''Content extraction failed'') None None Failed (Some (getErrorMessage e))"
    have thrown: "processUrl sv page d
                    = Some (Inl (Error (js ''Failed to process URL: '' @ getErrorMessage e)),
                            snd (create ?row d1))"
      using that by (simp add: processUrl_def Let_def)
    have stored: "recordOf (snd (create ?row d1)) ?url = Some (Failed, Some (getErrorMessage e), 0)"
      if fresh: "contents d1 ?url = None" "faults d1 = []"
    proof -
      have "new_id ?row = ?url" by (simp add: rowOf_def)
      with create_ok [OF fresh(2), of ?row] fresh(1)
      have "snd (create ?row d1)
              = d1\<lparr>contents := (contents d1)(?url \<mapsto> insertRow ?row (clock d1))\<rparr>"
        by simp
      with rowOf_failed show ?thesis by simp
    qed
    show ?thesis
    proof (intro exI conjI impI)
      show "processUrl sv page d
              = Some (Inl (Error (js ''Failed to process URL: '' @ getErrorMessage e)),
                      snd (create ?row d1))"
        by (rule thrown)
    next
      assume "contents d1 ?url = None \<and> faults d1 = []"
      then show "recordOf (snd (create ?row d1)) ?url = Some (Failed, Some (getErrorMessage e), 0)"
        using stored by simp
    qed
  qed
  have again: "\<exists>d3. retryFailedContent sv i d
                  = Some (Inl (Error (js ''Failed to retry content: '' @ getErrorMessage e)), d3)
              \<and> recordOf d3 i
                  = Some (Failed, orNull (Some (getErrorMessage e)), processingAttempts c + 2)"
    if ok: "faults d = []" and c: "contents d i = Some c" "status c = Failed"
      "type' c \<noteq> Image" "url c = Some u" "u \<noteq> []"
      and thrown: "retryTry sv i u (snd (updateStatus i Processing None d)) = Some (Inl e, d2)"
    for c u e d2
  proof -
    let ?c1 = "c\<lparr> status := Processing, errorMessage := orNull None,
                   processingAttempts := processingAttempts c + 1, updatedAt := clock d,
                   completedAt := (if Processing = Completed then Some (clock d) else None) \<rparr>"
    let ?d1 = "d\<lparr>contents := (contents d)(i \<mapsto> ?c1)\<rparr>"
    have mark: "updateStatus i Processing None d = (Inr (), ?d1)"
      using ok c(1) by (rule updateStatus_ok)
    with thrown have tried: "retryTry sv i u ?d1 = Some (Inl e, d2)" by simp
    have d1: "faults ?d1 = []" "contents ?d1 i = Some ?c1" using ok by simp_all
    from retryTry_frame [OF tried d1(2)] d1(1) obtain c2 where
      c2: "contents d2 i = Some c2" "processingAttempts c2 = processingAttempts c + 1"
      and f2: "faults d2 = []"
      by auto
    let ?msg = "getErrorMessage e"
    let ?c3 = "c2\<lparr> status := Failed, errorMessage := orNull (Some ?msg),
                   processingAttempts := processingAttempts c2 + 1, updatedAt := clock d2,
                   completedAt := (if Failed = Completed then Some (clock d2) else None) \<rparr>"
    let ?d3 = "d2\<lparr>contents := (contents d2)(i \<mapsto> ?c3)\<rparr>"
    have fail: "updateStatus i Failed (Some ?msg) d2 = (Inr (), ?d3)"
      using f2 c2(1) by (rule updateStatus_ok)
    have "retryFailedContent sv i d
            = Some (Inl (Error (js ''Failed to retry content: '' @ ?msg)), ?d3)"
      using findById_ok [OF ok, of i] c mark tried fail
      by (simp add: retryFailedContent_def Let_def)
    moreover have "recordOf ?d3 i = Some (Failed, orNull (Some ?msg), processingAttempts c + 2)"
      using c2(2) by (simp add: recordOf_def)
    ultimately show ?thesis by blast
  qed
  show ?thesis
  proof (intro conjI allI impI)
    show "\<exists>out d'. processImage sv input d = Some (Inr out, d')" by (rule returns)
  next
    fix e d1
    assume "processImageTry sv input ?img d = Some (Inl e, d1)
              \<and> contents d1 ?img = None \<and> faults d1 = []"
    then show "\<exists>d2. processImage sv input d
                  = Some (Inr \<lparr> out_success = False, out_contentId = ?img,
                                out_title = None, out_error = Some (getErrorMessage e) \<rparr>, d2)
              \<and> recordOf d2 ?img = Some (Failed, Some (getErrorMessage e), 0)"
      using image by blast
  next
    fix e d1
    assume "processUrlTry sv page ?url d = Some (Inl e, d1)"
    then show "\<exists>d2. processUrl sv page d
                  = Some (Inl (Error (js ''Failed to process URL: '' @ getErrorMessage e)), d2)
              \<and> (contents d1 ?url = None \<and> faults d1 = [] \<longrightarrow>
                   recordOf d2 ?url = Some (Failed, Some (getErrorMessage e), 0))"
      by (rule page)
  next
    fix c u e d2
    assume "faults d = [] \<and> contents d i = Some c \<and> status c = Failed
                \<and> type' c \<noteq> Image \<and> url c = Some u \<and> u \<noteq> []
                \<and> retryTry sv i u (snd (updateStatus i Processing None d)) = Some (Inl e, d2)"
    then show "\<exists>d3. retryFailedContent sv i d
                  = Some (Inl (Error (js ''Failed to retry content: '' @ getErrorMessage e)), d3)
              \<and> recordOf d3 i
                  = Some (Failed, orNull (Some (getErrorMessage e)), processingAttempts c + 2)"
      using again by blast
  qed
qed


lemma upload_fails:
  "processImageTry failingServices catImage (js ''img_'' @ sv_nanoid failingServices) emptyDb
     = Some (Inl (Error (js ''upload failed'')), emptyDb)"
  by (simp add: processImageTry_def failingServices_def)

lemma upload_failure_recorded:
  "\<exists>d2. processImage failingServices catImage emptyDb
           = Some (Inr \<lparr> out_success = False, out_contentId = js ''img_1'', out_title = None,
                         out_error = Some (js ''upload failed'') \<rparr>, d2)
        \<and> recordOf d2 (js ''img_1'') = Some (Failed, Some (js ''upload failed''), 0)"
proof -
  have fresh: "contents emptyDb (js ''img_'' @ sv_nanoid failingServices) = None"
    "faults emptyDb = []"
    by (simp_all add: emptyDb_def)
  have msg: "getErrorMessage (Error (js ''upload failed'')) = js ''upload failed''"
    by (simp add: getErrorMessage_def js_def)
  have i: "js ''img_'' @ sv_nanoid failingServices = js ''img_1''"
    by (simp add: failingServices_def js_def)
  from failure_is_recorded [of failingServices catImage emptyDb, THEN conjunct2, THEN conjunct1,
      THEN spec, THEN spec, THEN mp, OF conjI [OF upload_fails conjI [OF fresh]]]
  show ?thesis by (simp add: msg i)
qed

lemma store_fails:
  "storeImageChunks embeddingFails i t d
     = Some (Inl (Error (js ''Failed to generate embeddings: quota'')), d)"
proof -
  obtain r d' where "storeImageChunks embeddingFails i t d = Some (r, d')"
    using storeImageChunks_total by blast
  then obtain cs where
    "chunkText t \<lparr> opt_maxChunkSize = None, opt_overlapSize = None \<rparr> = Some cs"
    by (auto simp: storeImageChunks_def split: option.splits)
  moreover have "getErrorMessage (Error (js ''quota'')) = js ''quota''"
    by (simp add: getErrorMessage_def js_def)
  ultimately show ?thesis
    by (simp add: storeImageChunks_def generateEmbeddings_def embeddingFails_def
        failingServices_def)
       (simp add: js_def)
qed

lemma lost_connection:
  "map_option (\<lambda>(r, d'). (r, recordOf d' (js ''url_1'')))
     (retryFailedContent failingServices (js ''url_1'') lostDb)
     = Some (Inl (Error (js ''connection lost'')), Some (Processing, None, 3))"
proof -
  have web: "\<not> isYouTubeUrl (js ''https://example.org'')"
    by code_simp
  have row: "url failedPage = Some (js ''https://example.org'')"
    "js ''https://example.org'' \<noteq> []" "status failedPage = Failed"
    "type' failedPage = Webpage" "processingAttempts failedPage = 2"
    by (simp_all add: failedPage_def js_def)
  have "retryTry failingServices (js ''url_1'') (js ''https://example.org'') d
          = Some (Inl (Error (js ''timeout'')), d)" for d
    using web by (simp add: retryTry_def extractContent_def failingServices_def)
  then show ?thesis
    by (simp add: retryFailedContent_def findById_def updateStatus_def dbCall_def lostDb_def
        failedDb_def emptyDb_def row recordOf_def orNull_def Let_def)
qed

text \<open>
  C5. Two failures that are not recorded. With an embedding provider that throws,
  \<open>processImage\<close> reports the failure, but the row was created as completed before the
  chunks were embedded and the insert of the failed row meets the id already there: the
  item stays completed, without an error message, and its attempt counter is 0. And
  when the extraction of a retry throws and the write of the failure meets a lost
  connection, \<open>retryFailedContent\<close> throws the error of that write: the item stays in
  processing, without an error message.
\<close>

theorem failure_not_recorded:
  "map_option (\<lambda>(r, d'). (r, recordOf d' (js ''img_1''))) (processImage embeddingFails catImage emptyDb)
     = Some (Inr \<lparr> out_success = False, out_contentId = js ''img_1'', out_title = None,
                   out_error = Some (js ''Failed to generate embeddings: quota'') \<rparr>,
             Some (Completed, None, 0))
   \<and> map_option (\<lambda>(r, d'). (r, recordOf d' (js ''url_1'')))
       (retryFailedContent failingServices (js ''url_1'') lostDb)
     = Some (Inl (Error (js ''connection lost'')), Some (Processing, None, 3))"
proof -
  let ?i = "js ''img_1''"
  let ?row = "rowOf ?i Image None (js ''cat'') (js ''a cat'') (Some (js ''a cat''))
                (Some (js ''blob:1'')) Completed None"
  let ?d1 = "emptyDb\<lparr>contents := (contents emptyDb)(?i \<mapsto> insertRow ?row (clock emptyDb))\<rparr>"
  let ?e = "Error (js ''Failed to generate embeddings: quota'')"
  have i: "js ''img_'' @ sv_nanoid embeddingFails = ?i"
    by (simp add: embeddingFails_def failingServices_def js_def)
  have sv: "sv_uploadImage embeddingFails (in_buffer catImage) (in_contentType catImage)
              = Inr (js ''blob:1'')"
    "sv_analyze embeddingFails (in_buffer catImage) (in_contentType catImage) (in_context catImage)
       = Inr catMetadata"
    "sv_embedMany embeddingFails = (\<lambda>texts maxParallelCalls. Inl (Error (js ''quota'')))"
    by (simp_all add: embeddingFails_def failingServices_def)
  have meta: "meta_title catMetadata = js ''cat''" "meta_description catMetadata = js ''a cat''"
    "meta_tags catMetadata = [js ''pet'']" "js ''cat'' \<noteq> []" "js ''a cat'' \<noteq> []"
    "take 500 (js ''a cat'') = js ''a cat''"
    by (simp_all add: catMetadata_def js_def)
  have made: "create ?row emptyDb = (Inr (insertRow ?row (clock emptyDb)), ?d1)"
    using create_ok [of emptyDb ?row] by (simp add: emptyDb_def rowOf_def)
  have msg: "getErrorMessage (Error (js ''quota'')) = js ''quota''"
    "getErrorMessage ?e = js ''Failed to generate embeddings: quota''"
    by (simp_all add: getErrorMessage_def js_def)
  have tried: "processImageTry embeddingFails catImage ?i emptyDb = Some (Inl ?e, ?d1)"
    by (simp add: processImageTry_def sv(1,2) meta made store_fails Let_def)
  have again: "snd (create (rowOf ?i Image None (in_filename catImage) (js ''Failed to process'')
                      None None Failed (Some (js ''Failed to generate embeddings: quota''))) ?d1)
               = ?d1"
    by (simp add: create_def dbCall_def emptyDb_def rowOf_def)
  have kept: "recordOf ?d1 ?i = Some (Completed, None, 0)"
    by (simp add: recordOf_def insertRow_def rowOf_def)
  have "map_option (\<lambda>(r, d'). (r, recordOf d' ?i)) (processImage embeddingFails catImage emptyDb)
          = Some (Inr \<lparr> out_success = False, out_contentId = ?i, out_title = None,
                        out_error = Some (js ''Failed to generate embeddings: quota'') \<rparr>,
                  Some (Completed, None, 0))"
    by (simp add: processImage_def i tried msg(2) again kept Let_def)
  with lost_connection show ?thesis by (intro conjI)
qed

end
